theory Spec2Isabelle
  imports Complex_Main "HOL-Library.Sublist"
begin


section \<open>Strings and numbers of the host language\<close>

text \<open>
  A JavaScript string is a sequence of UTF-16 code units: \<open>length\<close>, \<open>slice\<close>,
  \<open>indexOf\<close> and the regular expressions of the route (none of which carries the
  \<open>u\<close> flag) all count and compare code units. A string is therefore a list of code
  unit values. ASCII literals are written through \<open>ascii\<close>; the Chinese literals of
  the source are written as their code units.
\<close>

type_synonym jsstring = "nat list"

definition ascii :: "string \<Rightarrow> jsstring" where
  "ascii s = map of_char s"

text \<open>
  The white space of \<open>String.prototype.trim\<close>, of the regular expression class
  \<open>\s\<close> and of \<open>parseInt\<close>: TAB, LF, VT, FF, CR, SP, NBSP, U+1680, U+2000..U+200A,
  LS, PS, U+202F, U+205F, U+3000 and U+FEFF.
\<close>

definition is_ws :: "nat \<Rightarrow> bool" where
  "is_ws c \<longleftrightarrow>
     (9 \<le> c \<and> c \<le> 13) \<or> c = 32 \<or> c = 160 \<or> c = 5760 \<or> (8192 \<le> c \<and> c \<le> 8202) \<or>
     c = 8232 \<or> c = 8233 \<or> c = 8239 \<or> c = 8287 \<or> c = 12288 \<or> c = 65279"

definition is_digit :: "nat \<Rightarrow> bool" where
  "is_digit c \<longleftrightarrow> 48 \<le> c \<and> c \<le> 57"

definition trim :: "jsstring \<Rightarrow> jsstring" where
  "trim s = rev (dropWhile is_ws (rev (dropWhile is_ws s)))"

text \<open>
  A JavaScript number is a double. Every finite double is a rational, and \<open>Math.min\<close>,
  \<open>Math.max\<close> and comparisons are exact on doubles, so the finite values are modelled as
  rationals, next to \<open>NaN\<close> and the two infinities. The operations \<open>+\<close>, \<open>-\<close>, \<open>*\<close> and
  \<open>/\<close> round their exact result to the nearest double; they are modelled with the
  rounding function \<open>fl\<close> below.
\<close>

datatype number = NaN | NegInfinity | Finite rat | Infinity

fun digits_value :: "nat \<Rightarrow> jsstring \<Rightarrow> nat" where
  "digits_value acc [] = acc"
| "digits_value acc (d # ds) = digits_value (10 * acc + (d - 48)) ds"

text \<open>
  \<open>Number.parseInt(s, 10)\<close>: leading white space is skipped, one sign is read, then the
  longest run of decimal digits; no digit gives \<open>NaN\<close>. (A digit string beyond the
  range of a double gives \<open>Infinity\<close> in JavaScript and a large integer here; the
  clamping below sends both to the same bound.)
\<close>

definition parseInt10 :: "jsstring \<Rightarrow> number" where
  "parseInt10 s =
     (let t = dropWhile is_ws s;
          neg = (case t of [] \<Rightarrow> False | c # _ \<Rightarrow> c = 45);
          u = (case t of [] \<Rightarrow> [] | c # r \<Rightarrow> if c = 45 \<or> c = 43 then r else t);
          z = takeWhile is_digit u
      in if z = [] then NaN
         else Finite (of_int ((if neg then - 1 else 1) * int (digits_value 0 z))))"

section \<open>Intensity and sampling parameters\<close>

definition MIN_INTENSITY :: rat where "MIN_INTENSITY = 1"
definition MAX_INTENSITY :: rat where "MAX_INTENSITY = 10"
definition DEFAULT_INTENSITY :: rat where "DEFAULT_INTENSITY = 6"

text \<open>
  \<open>clampIntensity\<close>: \<open>NaN\<close> gives the default, everything else goes through
  \<open>Math.min(Math.max(value, MIN), MAX)\<close>. Nothing rounds.
\<close>

fun clampIntensity :: "number \<Rightarrow> rat" where
  "clampIntensity NaN = DEFAULT_INTENSITY"
| "clampIntensity NegInfinity = MIN_INTENSITY"
| "clampIntensity Infinity = MAX_INTENSITY"
| "clampIntensity (Finite v) = min (max v MIN_INTENSITY) MAX_INTENSITY"

text \<open>
  The \<open>intensity\<close> field of the request body, as the handler's \<open>typeof\<close> test sees it:
  a number, a string, or anything else (absent, null, boolean, array, object).
\<close>

datatype intensity_input = INumber number | IString jsstring | IOther

fun parsedIntensity :: "intensity_input \<Rightarrow> rat" where
  "parsedIntensity (INumber v) = clampIntensity v"
| "parsedIntensity (IString s) = clampIntensity (parseInt10 s)"
| "parsedIntensity IOther = DEFAULT_INTENSITY"

subsection \<open>Double arithmetic\<close>

text \<open>
  Rounding to the nearest double. A positive double is \<open>m * 2^(e - 52)\<close> with
  \<open>2^52 \<le> m < 2^53\<close>. For \<open>x > 0\<close>, \<open>exponent x\<close> is the \<open>e\<close> with \<open>2^e \<le> x < 2^(e + 1)\<close>,
  computed from the number of binary digits of \<open>\<lfloor>x\<rfloor>\<close> (or of \<open>\<lceil>1 / x\<rceil> - 1\<close> below 1), and
  \<open>fl x\<close> is the multiple of \<open>2^(e - 52)\<close> nearest to \<open>x\<close>, the one with the even multiplier
  at a tie. Overflow to infinity and gradual underflow are outside this function: for a
  double intensity in \<open>[1, 10]\<close> every value rounded below is \<open>0\<close> or lies between
  \<open>2^(-56)\<close> and \<open>10\<close>.
\<close>

fun ilog2 :: "nat \<Rightarrow> nat" where
  "ilog2 n = (if n < 2 then 0 else Suc (ilog2 (n div 2)))"

declare ilog2.simps [simp del]

definition exponent :: "rat \<Rightarrow> int" where
  "exponent x =
     (if 1 \<le> x then int (ilog2 (nat \<lfloor>x\<rfloor>))
      else - int (ilog2 (nat (\<lceil>1 / x\<rceil> - 1)) + 1))"

definition round_half_even :: "rat \<Rightarrow> int" where
  "round_half_even x =
     (let n = \<lfloor>x\<rfloor>; r = x - of_int n
      in if r < 1 / 2 then n
         else if 1 / 2 < r then n + 1
         else if even n then n else n + 1)"

definition fl :: "rat \<Rightarrow> rat" where
  "fl x =
     (if x = 0 then 0
      else
        (let u = 2 powi (exponent \<bar>x\<bar> - 52)
         in of_int (round_half_even (x / u)) * u))"

subsection \<open>The sampling parameters\<close>

text \<open>
  \<open>x.toFixed(2)\<close> takes the exact value of the double \<open>x\<close> and picks the integer \<open>n\<close> with
  \<open>n / 100\<close> nearest to it, the larger one at a tie, after \<open>x\<close> has been made
  non-negative; \<open>toFixed2\<close> is the value \<open>n / 100\<close> of the decimal string. (Magnitudes from
  \<open>10^21\<close> on print in exponent form; they do not occur.) \<open>Number\<close> reads the string back
  as the nearest double.
\<close>

definition toFixed2 :: "rat \<Rightarrow> rat" where
  "toFixed2 x =
     (if x < 0 then - (of_int \<lfloor>(- x) * 100 + 1 / 2\<rfloor> / 100)
      else of_int \<lfloor>x * 100 + 1 / 2\<rfloor> / 100)"

text \<open>
  The literals \<open>0.35\<close>, \<open>0.65\<close>, \<open>0.1\<close> and \<open>0.8\<close> denote the nearest doubles, and every
  operation rounds.
\<close>

definition mapIntensityToTemperature :: "rat \<Rightarrow> rat" where
  "mapIntensityToTemperature intensity =
     (let normalized = fl (fl (intensity - MIN_INTENSITY) / fl (MAX_INTENSITY - MIN_INTENSITY))
      in fl (toFixed2 (fl (fl (35 / 100) + fl (normalized * fl (65 / 100))))))"

definition mapIntensityToPresencePenalty :: "rat \<Rightarrow> rat" where
  "mapIntensityToPresencePenalty intensity =
     (let normalized = fl (fl (intensity - MIN_INTENSITY) / fl (MAX_INTENSITY - MIN_INTENSITY))
      in fl (toFixed2 (fl (fl (1 / 10) + fl (normalized * fl (8 / 10))))))"

section \<open>The formulas of the specification\<close>

text \<open>
  The sampling formulas as the specification words them, over the exact rationals and
  before rounding to two decimals; the functions above are compared with them.
\<close>

definition spec_temperature :: "rat \<Rightarrow> rat" where
  "spec_temperature i = 35 / 100 + ((i - 1) / 9) * (65 / 100)"

definition spec_presence_penalty :: "rat \<Rightarrow> rat" where
  "spec_presence_penalty i = 1 / 10 + ((i - 1) / 9) * (8 / 10)"

section \<open>String operations\<close>

text \<open>\<open>s.includes(k)\<close>: \<open>k\<close> occurs in \<open>s\<close> as a contiguous run.\<close>

fun includes_str :: "jsstring \<Rightarrow> jsstring \<Rightarrow> bool" where
  "includes_str k [] = (k = [])"
| "includes_str k (c # cs) = (prefix k (c # cs) \<or> includes_str k cs)"

text \<open>
  \<open>s.split("\n")\<close> and \<open>s.split("\n\n")\<close>: the pieces between the occurrences of the
  separator, found from left to right without overlap; the piece being read is the
  first argument.
\<close>

fun split_lf :: "jsstring \<Rightarrow> jsstring \<Rightarrow> jsstring list" where
  "split_lf cur [] = [cur]"
| "split_lf cur (c # cs) = (if c = 10 then cur # split_lf [] cs else split_lf (cur @ [c]) cs)"

fun split_lflf :: "jsstring \<Rightarrow> jsstring \<Rightarrow> jsstring list" where
  "split_lflf cur [] = [cur]"
| "split_lflf cur [c] = [cur @ [c]]"
| "split_lflf cur (c # d # cs) =
     (if c = 10 \<and> d = 10 then cur # split_lflf [] cs else split_lflf (cur @ [c]) (d # cs))"

text \<open>
  \<open>s.split(/\n+/)\<close>: every maximal run of line feeds is one separator. The flag says
  that the previous code unit was a line feed of the run being skipped.
\<close>

fun split_lf_runs :: "bool \<Rightarrow> jsstring \<Rightarrow> jsstring \<Rightarrow> jsstring list" where
  "split_lf_runs inrun cur [] = [cur]"
| "split_lf_runs inrun cur (c # cs) =
     (if c = 10 then (if inrun then split_lf_runs True [] cs else cur # split_lf_runs True [] cs)
      else split_lf_runs False (cur @ [c]) cs)"

text \<open>\<open>xs.join(sep)\<close>.\<close>

fun join :: "jsstring \<Rightarrow> jsstring list \<Rightarrow> jsstring" where
  "join sep [] = []"
| "join sep [x] = x"
| "join sep (x # y # ys) = x @ sep @ join sep (y # ys)"

text \<open>
  \<open>s.toLowerCase()\<close>. The ASCII capitals go to their small letters; of the other code
  units, only U+0130 (to \<open>i\<close> followed by U+0307) and U+212A (to \<open>k\<close>) lower-case to
  something that contains an ASCII code unit. The rest of the Unicode table maps
  non-ASCII code units to non-ASCII code units and is not reproduced: such code units
  are kept, which cannot change whether an ASCII phrase occurs in the result.
\<close>

definition lower_unit :: "nat \<Rightarrow> jsstring" where
  "lower_unit c =
     (if 65 \<le> c \<and> c \<le> 90 then [c + 32]
      else if c = 304 then [105, 775]
      else if c = 8490 then [107]
      else [c])"

definition toLowerCase :: "jsstring \<Rightarrow> jsstring" where
  "toLowerCase s = concat (map lower_unit s)"

text \<open>
  Matching under the \<open>i\<close> flag (without \<open>u\<close>) compares canonicalised code units: each is
  upper-cased, except that a non-ASCII code unit is never mapped to an ASCII one. The
  patterns matched this way are ASCII, so only the ASCII small letters matter.
\<close>

definition canon :: "nat \<Rightarrow> nat" where
  "canon c = (if 97 \<le> c \<and> c \<le> 122 then c - 32 else c)"

definition ci_prefix :: "jsstring \<Rightarrow> jsstring \<Rightarrow> bool" where
  "ci_prefix p s \<longleftrightarrow> prefix (map canon p) (map canon s)"

text \<open>The word characters of \<open>\b\<close>: letters, digits and the underscore.\<close>

definition is_word :: "nat \<Rightarrow> bool" where
  "is_word c \<longleftrightarrow> (48 \<le> c \<and> c \<le> 57) \<or> (65 \<le> c \<and> c \<le> 90) \<or> c = 95 \<or> (97 \<le> c \<and> c \<le> 122)"

text \<open>\<open>s.indexOf(c)\<close> and \<open>s.lastIndexOf(c)\<close> for one code unit; \<open>None\<close> is \<open>-1\<close>.\<close>

definition indexOf :: "nat \<Rightarrow> jsstring \<Rightarrow> nat option" where
  "indexOf c s = (if c \<in> set s then Some (length (takeWhile (\<lambda>x. x \<noteq> c) s)) else None)"

definition lastIndexOf :: "nat \<Rightarrow> jsstring \<Rightarrow> nat option" where
  "lastIndexOf c s =
     (if c \<in> set s then Some (length s - 1 - length (takeWhile (\<lambda>x. x \<noteq> c) (rev s))) else None)"

section \<open>JSON values and \<open>JSON.parse\<close>\<close>

text \<open>
  The values \<open>JSON.parse\<close> returns. A number keeps its lexeme: no claim reads its
  value. An object keeps its members in source order; a later member of the same name
  replaces an earlier one when the object is read.
\<close>

datatype json =
    JNull
  | JBool bool
  | JNumber jsstring
  | JString jsstring
  | JArray "json list"
  | JObject "(jsstring \<times> json) list"

definition json_ws :: "nat \<Rightarrow> bool" where
  "json_ws c \<longleftrightarrow> c = 9 \<or> c = 10 \<or> c = 13 \<or> c = 32"

definition skip_ws :: "jsstring \<Rightarrow> jsstring" where
  "skip_ws s = dropWhile json_ws s"

definition hex_val :: "nat \<Rightarrow> nat option" where
  "hex_val c =
     (if 48 \<le> c \<and> c \<le> 57 then Some (c - 48)
      else if 65 \<le> c \<and> c \<le> 70 then Some (c - 55)
      else if 97 \<le> c \<and> c \<le> 102 then Some (c - 87)
      else None)"

fun hex4 :: "jsstring \<Rightarrow> nat option" where
  "hex4 [a, b, c, d] =
     (case (hex_val a, hex_val b, hex_val c, hex_val d) of
        (Some w, Some x, Some y, Some z) \<Rightarrow> Some (4096 * w + 256 * x + 16 * y + z)
      | _ \<Rightarrow> None)"
| "hex4 _ = None"

definition escape_char :: "nat \<Rightarrow> nat option" where
  "escape_char e =
     (if e = 34 \<or> e = 92 \<or> e = 47 then Some e
      else if e = 98 then Some 8
      else if e = 102 then Some 12
      else if e = 110 then Some 10
      else if e = 114 then Some 13
      else if e = 116 then Some 9
      else None)"

text \<open>
  The body of a string literal, after the opening quote: the value read so far, then
  the input. The result is the value and the input after the closing quote.
\<close>

fun parse_string :: "jsstring \<Rightarrow> jsstring \<Rightarrow> (jsstring \<times> jsstring) option" where
  "parse_string acc [] = None"
| "parse_string acc (c # cs) =
     (if c = 34 then Some (acc, cs)
      else if c = 92 then
        (case cs of
           [] \<Rightarrow> None
         | e # r \<Rightarrow>
             if e = 117 then
               (case hex4 (take 4 r) of
                  None \<Rightarrow> None
                | Some u \<Rightarrow> parse_string (acc @ [u]) (drop 4 r))
             else
               (case escape_char e of
                  None \<Rightarrow> None
                | Some x \<Rightarrow> parse_string (acc @ [x]) r))
      else if c < 32 then None
      else parse_string (acc @ [c]) cs)"

text \<open>
  A number literal: an optional minus, \<open>0\<close> or a digit run without leading zero, an
  optional fraction, an optional exponent. The result is the lexeme and the rest.
\<close>

definition number_int :: "jsstring \<Rightarrow> (jsstring \<times> jsstring) option" where
  "number_int s =
     (case s of
        [] \<Rightarrow> None
      | d # r \<Rightarrow>
          if d = 48 then Some ([48], r)
          else if is_digit d then Some (d # takeWhile is_digit r, dropWhile is_digit r)
          else None)"

definition number_frac :: "jsstring \<Rightarrow> (jsstring \<times> jsstring) option" where
  "number_frac s =
     (case s of
        [] \<Rightarrow> Some ([], [])
      | c # r \<Rightarrow>
          if c = 46 then
            (if takeWhile is_digit r = [] then None
             else Some (c # takeWhile is_digit r, dropWhile is_digit r))
          else Some ([], s))"

definition number_exp :: "jsstring \<Rightarrow> (jsstring \<times> jsstring) option" where
  "number_exp s =
     (case s of
        [] \<Rightarrow> Some ([], [])
      | c # r \<Rightarrow>
          if c = 101 \<or> c = 69 then
            (let sg = (case r of [] \<Rightarrow> [] | x # _ \<Rightarrow> if x = 43 \<or> x = 45 then [x] else []);
                 r' = drop (length sg) r
             in if takeWhile is_digit r' = [] then None
                else Some (c # sg @ takeWhile is_digit r', dropWhile is_digit r'))
          else Some ([], s))"

definition parse_number :: "jsstring \<Rightarrow> (jsstring \<times> jsstring) option" where
  "parse_number s =
     (let sg = (case s of [] \<Rightarrow> [] | c # _ \<Rightarrow> if c = 45 then [c] else [])
      in case number_int (drop (length sg) s) of
           None \<Rightarrow> None
         | Some (ip, s2) \<Rightarrow>
             (case number_frac s2 of
                None \<Rightarrow> None
              | Some (fp, s3) \<Rightarrow>
                  (case number_exp s3 of
                     None \<Rightarrow> None
                   | Some (ep, s4) \<Rightarrow> Some (sg @ ip @ fp @ ep, s4))))"

text \<open>
  The recursive descent over values, array elements and object members. The first
  argument bounds the number of nested calls: a call of \<open>parse_value\<close> reads at least one
  code unit before it descends, so twice the length of the text is never reached.
  \<open>None\<close> is the \<open>SyntaxError\<close> of \<open>JSON.parse\<close>.
\<close>

fun parse_value :: "nat \<Rightarrow> jsstring \<Rightarrow> (json \<times> jsstring) option"
  and parse_elements :: "nat \<Rightarrow> json list \<Rightarrow> jsstring \<Rightarrow> (json \<times> jsstring) option"
  and parse_members :: "nat \<Rightarrow> (jsstring \<times> json) list \<Rightarrow> jsstring \<Rightarrow> (json \<times> jsstring) option"
where
  "parse_value 0 s = None"
| "parse_value (Suc n) s =
     (case skip_ws s of
        [] \<Rightarrow> None
      | c # cs \<Rightarrow>
          if c = 91 then
            (case skip_ws cs of
               [] \<Rightarrow> None
             | d # ds \<Rightarrow> if d = 93 then Some (JArray [], ds) else parse_elements n [] cs)
          else if c = 123 then
            (case skip_ws cs of
               [] \<Rightarrow> None
             | d # ds \<Rightarrow> if d = 125 then Some (JObject [], ds) else parse_members n [] cs)
          else if c = 34 then
            (case parse_string [] cs of
               None \<Rightarrow> None
             | Some (str, r) \<Rightarrow> Some (JString str, r))
          else if prefix (ascii ''true'') (c # cs) then Some (JBool True, drop 4 (c # cs))
          else if prefix (ascii ''false'') (c # cs) then Some (JBool False, drop 5 (c # cs))
          else if prefix (ascii ''null'') (c # cs) then Some (JNull, drop 4 (c # cs))
          else
            (case parse_number (c # cs) of
               None \<Rightarrow> None
             | Some (lexeme, r) \<Rightarrow> Some (JNumber lexeme, r)))"
| "parse_elements 0 acc s = None"
| "parse_elements (Suc n) acc s =
     (case parse_value n s of
        None \<Rightarrow> None
      | Some (v, r) \<Rightarrow>
          (case skip_ws r of
             [] \<Rightarrow> None
           | c # cs \<Rightarrow>
               if c = 44 then parse_elements n (acc @ [v]) cs
               else if c = 93 then Some (JArray (acc @ [v]), cs)
               else None))"
| "parse_members 0 acc s = None"
| "parse_members (Suc n) acc s =
     (case skip_ws s of
        [] \<Rightarrow> None
      | q # r0 \<Rightarrow>
          if q \<noteq> 34 then None
          else
            (case parse_string [] r0 of
               None \<Rightarrow> None
             | Some (k, r1) \<Rightarrow>
                 (case skip_ws r1 of
                    [] \<Rightarrow> None
                  | c # r2 \<Rightarrow>
                      if c \<noteq> 58 then None
                      else
                        (case parse_value n r2 of
                           None \<Rightarrow> None
                         | Some (v, r3) \<Rightarrow>
                             (case skip_ws r3 of
                                [] \<Rightarrow> None
                              | d # r4 \<Rightarrow>
                                  if d = 44 then parse_members n (acc @ [(k, v)]) r4
                                  else if d = 125 then Some (JObject (acc @ [(k, v)]), r4)
                                  else None)))))"

definition JSON_parse :: "jsstring \<Rightarrow> json option" where
  "JSON_parse s =
     (case parse_value (2 * length s + 2) s of
        None \<Rightarrow> None
      | Some (v, r) \<Rightarrow> if skip_ws r = [] then Some v else None)"

text \<open>
  Reading a member the way the route does, with \<open>"k" in v\<close> and \<open>v.k\<close>, for an object
  made by \<open>JSON.parse\<close>: \<open>None\<close> when there is no member of that name (none of the names
  the route asks for is inherited), else the last member of that name.
\<close>

definition get_key :: "jsstring \<Rightarrow> (jsstring \<times> json) list \<Rightarrow> json option" where
  "get_key k ms = map_of (rev ms) k"

section \<open>The reply extractor\<close>

subsection \<open>\<open>sanitizeContent\<close>\<close>

text \<open>
  The regular expression \<open>/<think\b[^>]*>[\s\S]*?<\/think>/gi\<close>. A match at the head of
  the text needs \<open><think\<close> in any letter case, then a code unit that is no word
  character, then the first \<open>>\<close>, then the first \<open></think>\<close> (any letter case) after
  that \<open>>\<close>; \<open>[^>]*\<close> cannot step over a \<open>>\<close> and \<open>[\s\S]*?\<close> is lazy, so no other
  match starts there. \<open>find_close\<close> counts the code units before the closing tag;
  \<open>match_think\<close> is the length of the match.
\<close>

fun find_close :: "jsstring \<Rightarrow> nat option" where
  "find_close [] = None"
| "find_close (c # cs) =
     (if ci_prefix (ascii ''</think>'') (c # cs) then Some 0 else map_option Suc (find_close cs))"

definition match_think :: "jsstring \<Rightarrow> nat option" where
  "match_think s =
     (if ci_prefix (ascii ''<think'') s then
        (case drop 6 s of
           [] \<Rightarrow> None
         | b # _ \<Rightarrow>
             if is_word b then None
             else
               (let attrs = takeWhile (\<lambda>x. x \<noteq> 62) (drop 6 s)
                in case drop (6 + length attrs) s of
                     [] \<Rightarrow> None
                   | _ # body \<Rightarrow>
                       (case find_close body of
                          None \<Rightarrow> None
                        | Some k \<Rightarrow> Some (6 + length attrs + 1 + k + 8))))
      else None)"

text \<open>
  \<open>raw.replace(re, "")\<close> with the \<open>g\<close> flag: the text is scanned from left to right; a
  match is deleted and the scan goes on behind it. The first argument is the number
  of code units of the current match that are still to be skipped.
\<close>

fun strip_think :: "nat \<Rightarrow> jsstring \<Rightarrow> jsstring" where
  "strip_think skip [] = []"
| "strip_think skip (c # cs) =
     (if 0 < skip then strip_think (skip - 1) cs
      else
        (case match_think (c # cs) of
           Some len \<Rightarrow> strip_think (len - 1) cs
         | None \<Rightarrow> c # strip_think 0 cs))"

definition sanitizeContent :: "jsstring \<Rightarrow> jsstring" where
  "sanitizeContent raw = (if raw = [] then [] else trim (strip_think 0 raw))"

subsection \<open>\<open>tryParseJsonArray\<close> and \<open>extractJsonArrayFromText\<close>\<close>

fun string_items :: "json list \<Rightarrow> jsstring list" where
  "string_items [] = []"
| "string_items (JString s # items) = s # string_items items"
| "string_items (_ # items) = string_items items"

definition tryParseJsonArray :: "jsstring \<Rightarrow> jsstring list" where
  "tryParseJsonArray raw =
     (if raw = [] then []
      else
        (case JSON_parse raw of
           Some (JArray parsed) \<Rightarrow>
             take 3 (filter (\<lambda>item. 0 < length item) (map trim (string_items parsed)))
         | _ \<Rightarrow> []))"

definition extractJsonArrayFromText :: "jsstring \<Rightarrow> jsstring option" where
  "extractJsonArrayFromText raw =
     (if raw = [] then None
      else
        (case (indexOf 91 raw, lastIndexOf 93 raw) of
           (Some start, Some end) \<Rightarrow>
             if end \<le> start then None else Some (take (end + 1 - start) (drop start raw))
         | _ \<Rightarrow> None))"

subsection \<open>\<open>fallbackSplit\<close> and \<open>isLikelyReply\<close>\<close>

text \<open>
  The class of the marker pattern \<open>/^[...]+/\<close>: white space, digits, \<open>-\<close>, U+2022,
  U+3001 and \<open>.\<close>.
\<close>

definition is_marker :: "nat \<Rightarrow> bool" where
  "is_marker c \<longleftrightarrow> is_ws c \<or> is_digit c \<or> c = 45 \<or> c = 8226 \<or> c = 12289 \<or> c = 46"

text \<open>
  The shapes of the forbidden patterns, all anchored at the start of the line:
  an opening \<open><think ...>\<close> tag, a closing \<open></think>\<close> tag, a label followed by an ASCII or
  full-width colon, and a start word followed on the same line by another word.
\<close>

definition pat_think_open :: "jsstring \<Rightarrow> bool" where
  "pat_think_open line \<longleftrightarrow>
     ci_prefix (ascii ''<think'') line \<and>
     (case drop 6 line of [] \<Rightarrow> False | b # r \<Rightarrow> \<not> is_word b \<and> 62 \<in> set (b # r))"

definition pat_think_close :: "jsstring \<Rightarrow> bool" where
  "pat_think_close line \<longleftrightarrow> ci_prefix (ascii ''</think>'') line"

definition pat_label :: "jsstring \<Rightarrow> jsstring \<Rightarrow> bool" where
  "pat_label w line \<longleftrightarrow>
     prefix w line \<and>
     (case drop (length w) line of [] \<Rightarrow> False | c # _ \<Rightarrow> c = 58 \<or> c = 65306)"

definition pat_then :: "jsstring \<Rightarrow> jsstring \<Rightarrow> jsstring \<Rightarrow> bool" where
  "pat_then a b line \<longleftrightarrow>
     prefix a line \<and> includes_str b (takeWhile (\<lambda>x. x \<noteq> 10) (drop (length a) line))"

definition forbiddenPatterns :: "(jsstring \<Rightarrow> bool) list" where
  "forbiddenPatterns =
     [pat_think_open,
      pat_think_close,
      pat_label [22330, 26223],
      pat_label [25105, 30340, 35282, 33394],
      pat_then [35831] (ascii ''JSON''),
      pat_then [29992, 25143] [35201, 27714],
      pat_label [24605, 32771],
      pat_label [35282, 33394, 35774, 23450]]"

definition forbiddenKeywords :: "jsstring list" where
  "forbiddenKeywords =
     [[22330, 26223, 65306],
      [36755, 20986, 24517, 39035],
      [39640, 24773, 21830, 21453, 20987],
      [20851, 38190, 28857],
      [19981, 35201, 36755, 20986],
      [35831, 30830, 20445],
      ascii ''JSON'']"

definition disallowedStarts :: "jsstring list" where
  "disallowedStarts =
     [[22330, 26223], [35282, 33394], [36755, 20986], [35828, 26126], [25552, 31034]]"

text \<open>
  The class of sentence punctuation: U+3002, U+FF1F, U+FF01, \<open>?\<close>, \<open>!\<close>, U+2026, U+FF5E
  and \<open>~\<close>; and the range U+4E00..U+9FA5 of ideographs.
\<close>

definition is_punct :: "nat \<Rightarrow> bool" where
  "is_punct c \<longleftrightarrow>
     c = 12290 \<or> c = 65311 \<or> c = 65281 \<or> c = 63 \<or> c = 33 \<or> c = 8230 \<or> c = 65374 \<or> c = 126"

definition is_cjk :: "nat \<Rightarrow> bool" where
  "is_cjk c \<longleftrightarrow> 19968 \<le> c \<and> c \<le> 40869"

definition isLikelyReply :: "jsstring \<Rightarrow> bool" where
  "isLikelyReply line =
     (if length line < 6 then False
      else if list_ex (\<lambda>pre. prefix pre line) disallowedStarts then False
      else if list_ex is_punct line then True
      else list_ex is_cjk line \<and> 8 \<le> length line)"

definition strip_markers :: "jsstring \<Rightarrow> jsstring" where
  "strip_markers line = trim (dropWhile is_marker line)"

definition fallbackSplit :: "jsstring \<Rightarrow> jsstring list" where
  "fallbackSplit raw =
     (if raw = [] then []
      else
        take 3
          (filter isLikelyReply
            (filter (\<lambda>line. \<not> list_ex (\<lambda>keyword. includes_str keyword line) forbiddenKeywords)
              (filter (\<lambda>line. \<not> list_ex (\<lambda>pattern. pattern line) forbiddenPatterns)
                (filter (\<lambda>line. 0 < length line)
                  (map strip_markers (split_lf_runs False [] raw)))))))"

text \<open>
  The lines that reach \<open>isLikelyReply\<close>: split, stripped of their markers and trimmed,
  the empty ones dropped, then the ones a forbidden pattern or keyword rejects.
\<close>

definition denylisted :: "jsstring \<Rightarrow> bool" where
  "denylisted line \<longleftrightarrow>
     list_ex (\<lambda>pattern. pattern line) forbiddenPatterns \<or>
     list_ex (\<lambda>keyword. includes_str keyword line) forbiddenKeywords"

definition candidate_lines :: "jsstring \<Rightarrow> jsstring list" where
  "candidate_lines raw =
     filter (\<lambda>line. \<not> denylisted line)
       (filter (\<lambda>line. line \<noteq> []) (map strip_markers (split_lf_runs False [] raw)))"

text \<open>
  A reply that the line heuristic gives back as it stands when it is a line of its own:
  one line, with no marker in front and no white space around it, that passes the
  denylist and \<open>isLikelyReply\<close>, and that contains neither \<open>[\<close> nor \<open><\<close>.
\<close>

definition reextractable :: "jsstring \<Rightarrow> bool" where
  "reextractable r \<longleftrightarrow>
     10 \<notin> set r \<and> strip_markers r = r \<and> \<not> denylisted r \<and> isLikelyReply r \<and>
     91 \<notin> set r \<and> 60 \<notin> set r"

subsection \<open>\<open>collectReplies\<close>\<close>

definition collectReplies :: "jsstring \<Rightarrow> jsstring list" where
  "collectReplies rawContent =
     (let sanitized = sanitizeContent rawContent;
          parsed = tryParseJsonArray sanitized
      in if 0 < length parsed then parsed
         else
           (case extractJsonArrayFromText sanitized of
              Some extracted \<Rightarrow>
                if extracted \<noteq> [] \<and> 0 < length (tryParseJsonArray extracted)
                then tryParseJsonArray extracted
                else fallbackSplit sanitized
            | None \<Rightarrow> fallbackSplit sanitized))"

section \<open>The request orchestrator\<close>

subsection \<open>Reading provider payloads\<close>

text \<open>The callback of \<open>raw.map(...)\<close> in \<open>extractMessageContent\<close>.\<close>

fun content_part :: "json \<Rightarrow> jsstring" where
  "content_part (JString item) = item"
| "content_part (JObject item) = (case get_key (ascii ''text'') item of Some (JString t) \<Rightarrow> t | _ \<Rightarrow> [])"
| "content_part _ = []"

fun extractMessageContent :: "json \<Rightarrow> jsstring" where
  "extractMessageContent (JString raw) = raw"
| "extractMessageContent (JArray raw) = join [10] (map content_part raw)"
| "extractMessageContent (JObject raw) =
     (case get_key (ascii ''text'') raw of Some (JString t) \<Rightarrow> t | _ \<Rightarrow> [])"
| "extractMessageContent _ = []"

text \<open>
  \<open>extractDeltaText\<close>. The first choice must be an object. If its \<open>delta\<close> is an object
  with a \<open>content\<close> member, that content is read; otherwise, if it has a \<open>message\<close> whose
  \<open>typeof\<close> is \<open>"object"\<close> (an object, an array or null), the message itself is read.
\<close>

definition extractDeltaText :: "json \<Rightarrow> jsstring" where
  "extractDeltaText payload =
     (case payload of
        JObject p \<Rightarrow>
          (case get_key (ascii ''choices'') p of
             Some (JArray (JObject choice # _)) \<Rightarrow>
               (case (case get_key (ascii ''delta'') choice of
                        Some (JObject delta) \<Rightarrow> get_key (ascii ''content'') delta
                      | _ \<Rightarrow> None) of
                  Some content \<Rightarrow> extractMessageContent content
                | None \<Rightarrow>
                    (case get_key (ascii ''message'') choice of
                       Some (JObject m) \<Rightarrow> extractMessageContent (JObject m)
                     | Some (JArray m) \<Rightarrow> extractMessageContent (JArray m)
                     | Some JNull \<Rightarrow> extractMessageContent JNull
                     | _ \<Rightarrow> []))
           | _ \<Rightarrow> [])
      | _ \<Rightarrow> [])"

text \<open>The message literals of the route, by their code units.\<close>

definition REQUEST_FAILED_MESSAGE :: jsstring where
  "REQUEST_FAILED_MESSAGE =
     [27169, 22411, 25509, 21475, 35831, 27714, 22833, 36133, 65292, 35831, 31245, 21518,
      20877, 35797, 12290]"

definition EMPTY_RESPONSE_MESSAGE :: jsstring where
  "EMPTY_RESPONSE_MESSAGE =
     [27169, 22411, 36820, 22238, 31354, 21709, 24212, 65292, 35831, 31245, 21518, 20877,
      35797, 12290]"

definition NO_ANSWER_MESSAGE :: jsstring where
  "NO_ANSWER_MESSAGE =
     [27169, 22411, 26242, 26102, 32473, 19981, 20986, 31572, 26696, 65292, 35831, 25442,
      20010, 25551, 36848, 20877, 35797, 35797, 12290]"

definition SERVICE_UNAVAILABLE_MESSAGE :: jsstring where
  "SERVICE_UNAVAILABLE_MESSAGE =
     [26381, 21153, 26242, 26102, 19981, 21487, 29992, 65292, 35831, 31245, 21518, 37325,
      35797, 12290]"

text \<open>The separator \<open>" | "\<close> of the combined message, with the full-width bar U+FF5C.\<close>

definition SEPARATOR :: jsstring where
  "SEPARATOR = [32, 65372, 32]"

text \<open>
  \<open>extractErrorMessage\<close>: a non-blank string \<open>error\<close>, else a non-blank string
  \<open>error.message\<close>, else a non-blank string \<open>message\<close>, else the default.
\<close>

definition extractErrorMessage :: "json \<Rightarrow> jsstring" where
  "extractErrorMessage payload =
     (let from_error =
            (case payload of
               JObject p \<Rightarrow>
                 (case get_key (ascii ''error'') p of
                    Some (JString error) \<Rightarrow> if trim error \<noteq> [] then Some (trim error) else None
                  | Some (JObject error) \<Rightarrow>
                      (case get_key (ascii ''message'') error of
                         Some (JString message) \<Rightarrow>
                           if trim message \<noteq> [] then Some (trim message) else None
                       | _ \<Rightarrow> None)
                  | _ \<Rightarrow> None)
             | _ \<Rightarrow> None);
          from_message =
            (case payload of
               JObject p \<Rightarrow>
                 (case get_key (ascii ''message'') p of
                    Some (JString fallback) \<Rightarrow>
                      if trim fallback \<noteq> [] then Some (trim fallback) else None
                  | _ \<Rightarrow> None)
             | _ \<Rightarrow> None)
      in case from_error of
           Some m \<Rightarrow> m
         | None \<Rightarrow> (case from_message of Some m \<Rightarrow> m | None \<Rightarrow> REQUEST_FAILED_MESSAGE))"

definition shouldRetry :: "int \<Rightarrow> jsstring \<Rightarrow> bool" where
  "shouldRetry status message =
     (if 500 \<le> status then True
      else
        (let lowered = toLowerCase message
         in includes_str (ascii ''provider returned error'') lowered \<or>
            includes_str (ascii ''no endpoints found'') lowered \<or>
            includes_str (ascii ''upstream error'') lowered \<or>
            includes_str (ascii ''temporarily unavailable'') lowered))"

definition arraysEqual :: "jsstring list \<Rightarrow> jsstring list \<Rightarrow> bool" where
  "arraysEqual a b =
     (if length a \<noteq> length b then False else list_all (\<lambda>(item, other). item = other) (zip a b))"

subsection \<open>The output stream\<close>

datatype frame =
    ModelFrame jsstring
  | PartialFrame "jsstring list"
  | CompleteFrame "jsstring list"
  | ErrorFrame jsstring int

text \<open>
  The controller of the \<open>ReadableStream\<close>: the frames enqueued so far, one line of JSON
  each, and whether the stream has been closed. \<open>enqueue\<close> and \<open>close\<close> throw a
  \<open>TypeError\<close> on a closed stream.
\<close>

record controller =
  enqueued :: "frame list"
  is_closed :: bool

text \<open>
  How a piece of the handler ends: it runs to its end, it executes \<open>return\<close>, or it
  throws. The state at that moment is kept next to it.
\<close>

datatype completion = Normal | Returned | Thrown

definition send :: "frame \<Rightarrow> controller \<Rightarrow> completion \<times> controller" where
  "send chunk ctl =
     (if is_closed ctl then (Thrown, ctl)
      else (Normal, ctl\<lparr>enqueued := enqueued ctl @ [chunk]\<rparr>))"

definition close :: "controller \<Rightarrow> completion \<times> controller" where
  "close ctl = (if is_closed ctl then (Thrown, ctl) else (Normal, ctl\<lparr>is_closed := True\<rparr>))"

definition closeWithError :: "jsstring \<Rightarrow> int \<Rightarrow> controller \<Rightarrow> completion \<times> controller" where
  "closeWithError error status ctl =
     (case send (ErrorFrame error status) ctl of
        (Normal, ctl') \<Rightarrow> close ctl'
      | r \<Rightarrow> r)"

subsection \<open>One streamed attempt\<close>

text \<open>The variables of one attempt: \<open>buffer\<close>, \<open>aggregated\<close> and \<open>lastSent\<close>.\<close>

record stream_state =
  buffer :: jsstring
  aggregated :: jsstring
  lastSent :: "jsstring list"

definition flushPartial ::
    "stream_state \<Rightarrow> controller \<Rightarrow> completion \<times> stream_state \<times> controller" where
  "flushPartial st ctl =
     (let replies = collectReplies (aggregated st)
      in if length replies = 0 then (Normal, st, ctl)
         else if arraysEqual replies (lastSent st) then (Normal, st, ctl)
         else
           (case send (PartialFrame replies) ctl of
              (c, ctl') \<Rightarrow> (c, st\<lparr>lastSent := replies\<rparr>, ctl')))"

text \<open>The body of the loop over the lines of one event.\<close>

definition handle_line ::
    "jsstring \<Rightarrow> stream_state \<Rightarrow> controller \<Rightarrow> completion \<times> stream_state \<times> controller" where
  "handle_line rawLine st ctl =
     (let line = trim rawLine
      in if \<not> prefix (ascii ''data:'') line then (Normal, st, ctl)
         else
           (let data = trim (drop 5 line)
            in if data = [] \<or> data = ascii ''[DONE]'' then (Normal, st, ctl)
               else
                 (case JSON_parse data of
                    None \<Rightarrow> (Normal, st, ctl)
                  | Some parsed \<Rightarrow>
                      (let deltaText = extractDeltaText parsed
                       in if deltaText = [] then (Normal, st, ctl)
                          else flushPartial (st\<lparr>aggregated := aggregated st @ deltaText\<rparr>) ctl))))"

fun handle_lines ::
    "jsstring list \<Rightarrow> stream_state \<Rightarrow> controller \<Rightarrow> completion \<times> stream_state \<times> controller" where
  "handle_lines [] st ctl = (Normal, st, ctl)"
| "handle_lines (rawLine # lines) st ctl =
     (case handle_line rawLine st ctl of
        (Normal, st', ctl') \<Rightarrow> handle_lines lines st' ctl'
      | r \<Rightarrow> r)"

fun handle_events ::
    "jsstring list \<Rightarrow> stream_state \<Rightarrow> controller \<Rightarrow> completion \<times> stream_state \<times> controller" where
  "handle_events [] st ctl = (Normal, st, ctl)"
| "handle_events (event # events) st ctl =
     (case handle_lines (split_lf [] event) st ctl of
        (Normal, st', ctl') \<Rightarrow> handle_events events st' ctl'
      | r \<Rightarrow> r)"

text \<open>
  One result of \<open>reader.read()\<close>: a chunk, given by the text the streaming decoder
  returns for it, or a rejection. The end of the list is \<open>done\<close>: the provider's stream
  is taken to end or fail after finitely many reads (the route sets no time limit of
  its own).
\<close>

datatype read_result = Chunk jsstring | ReadError

fun read_loop ::
    "read_result list \<Rightarrow> stream_state \<Rightarrow> controller \<Rightarrow> completion \<times> stream_state \<times> controller" where
  "read_loop [] st ctl = (Normal, st, ctl)"
| "read_loop (ReadError # _) st ctl = (Thrown, st, ctl)"
| "read_loop (Chunk chunk # reads) st ctl =
     (let events = split_lflf [] (buffer st @ chunk)
      in case handle_events (butlast events) (st\<lparr>buffer := last events\<rparr>) ctl of
           (Normal, st', ctl') \<Rightarrow> read_loop reads st' ctl'
         | r \<Rightarrow> r)"

subsection \<open>The loop over the candidate models\<close>

text \<open>
  What \<open>fetch\<close> does for one candidate: it rejects, or it gives a response with a
  status, the value \<open>safeRead\<close> obtains from its body (\<open>JNull\<close> when nothing can be
  read), and the results of reading its body stream (\<open>None\<close> when the body is absent).
\<close>

datatype fetch_result =
    FetchError
  | Response int json "read_result list option"

definition response_ok :: "int \<Rightarrow> bool" where
  "response_ok status \<longleftrightarrow> 200 \<le> status \<and> status \<le> 299"

record failure =
  model :: jsstring
  status :: int
  message :: jsstring

text \<open>The code behind the loop: every candidate has been tried.\<close>

definition exhausted :: "failure list \<Rightarrow> controller \<Rightarrow> completion \<times> controller" where
  "exhausted errors ctl =
     (case errors of
        [] \<Rightarrow> closeWithError REQUEST_FAILED_MESSAGE 502 ctl
      | firstError # others \<Rightarrow>
          (let combined =
                 join SEPARATOR
                   (filter (\<lambda>part. part \<noteq> [])
                      (message firstError #
                       map (\<lambda>error. model error @ ascii '': '' @ message error) others))
           in closeWithError (if combined \<noteq> [] then combined else REQUEST_FAILED_MESSAGE)
                (status firstError) ctl))"

fun run_models ::
    "failure list \<Rightarrow> (jsstring \<times> fetch_result) list \<Rightarrow> controller \<Rightarrow> completion \<times> controller" where
  "run_models errors [] ctl = exhausted errors ctl"
| "run_models errors ((candidate, fetched) # rest) ctl =
     (case send (ModelFrame candidate) ctl of
        (Normal, ctl1) \<Rightarrow>
          (case fetched of
             FetchError \<Rightarrow> (Thrown, ctl1)
           | Response st errorPayload body \<Rightarrow>
               if \<not> response_ok st then
                 (let errorMessage = extractErrorMessage errorPayload
                  in if \<not> shouldRetry st errorMessage then
                       (case closeWithError errorMessage st ctl1 of
                          (Normal, ctl2) \<Rightarrow> (Returned, ctl2)
                        | r \<Rightarrow> r)
                     else
                       run_models
                         (errors @ [\<lparr>model = candidate, status = st, message = errorMessage\<rparr>])
                         rest ctl1)
               else
                 (case body of
                    None \<Rightarrow>
                      run_models
                        (errors @
                         [\<lparr>model = candidate, status = 502, message = EMPTY_RESPONSE_MESSAGE\<rparr>])
                        rest ctl1
                  | Some reads \<Rightarrow>
                      (case read_loop reads \<lparr>buffer = [], aggregated = [], lastSent = []\<rparr> ctl1 of
                         (Normal, st', ctl2) \<Rightarrow>
                           (let replies = collectReplies (trim (aggregated st'))
                            in if length replies = 0 then
                                 run_models
                                   (errors @
                                    [\<lparr>model = candidate, status = 502,
                                      message = NO_ANSWER_MESSAGE\<rparr>])
                                   rest ctl2
                               else
                                 (case send (CompleteFrame replies) ctl2 of
                                    (Normal, ctl3) \<Rightarrow>
                                      (case close ctl3 of
                                         (Normal, ctl4) \<Rightarrow> (Returned, ctl4)
                                       | r \<Rightarrow> r)
                                  | r \<Rightarrow> r))
                       | (c, st', ctl2) \<Rightarrow> (c, ctl2))))
      | r \<Rightarrow> r)"

text \<open>
  The \<open>start\<close> callback of the stream: the loop inside \<open>try\<close>, and the \<open>catch\<close> that
  closes with the generic error. A final \<open>Thrown\<close> is a rejection that nothing catches.
\<close>

definition stream_start :: "(jsstring \<times> fetch_result) list \<Rightarrow> completion \<times> controller" where
  "stream_start candidates =
     (case run_models [] candidates \<lparr>enqueued = [], is_closed = False\<rparr> of
        (Thrown, ctl) \<Rightarrow> closeWithError SERVICE_UNAVAILABLE_MESSAGE 500 ctl
      | r \<Rightarrow> r)"

subsection \<open>Properties of the frame sequence\<close>

fun is_terminal :: "frame \<Rightarrow> bool" where
  "is_terminal (CompleteFrame _) = True"
| "is_terminal (ErrorFrame _ _) = True"
| "is_terminal _ = False"

text \<open>A \<open>partial\<close> frame carries between one and three replies.\<close>

fun partial_ok :: "frame \<Rightarrow> bool" where
  "partial_ok (PartialFrame replies) = (1 \<le> length replies \<and> length replies \<le> 3)"
| "partial_ok _ = True"

text \<open>No \<open>partial\<close> frame equals a \<open>partial\<close> frame sent directly before it.\<close>

fun same_partial :: "frame \<Rightarrow> frame \<Rightarrow> bool" where
  "same_partial (PartialFrame a) (PartialFrame b) = (a = b)"
| "same_partial _ _ = False"

fun partials_differ :: "frame list \<Rightarrow> bool" where
  "partials_differ [] = True"
| "partials_differ [f] = True"
| "partials_differ (f # g # frames) = (\<not> same_partial f g \<and> partials_differ (g # frames))"

text \<open>
  The invariants of the proofs. While the stream is open, no terminal frame has been
  sent, every \<open>partial\<close> frame is well-formed, and \<open>lastSent\<close> is the content of the last
  frame whenever that is a \<open>partial\<close> frame. Once the handler is done, the stream is
  closed behind exactly one terminal frame.
\<close>

definition prefix_ok :: "frame list \<Rightarrow> bool" where
  "prefix_ok frames \<longleftrightarrow>
     list_all (\<lambda>f. \<not> is_terminal f \<and> partial_ok f) frames \<and> partials_differ frames"

definition attempt_inv :: "stream_state \<Rightarrow> controller \<Rightarrow> bool" where
  "attempt_inv st ctl \<longleftrightarrow>
     \<not> is_closed ctl \<and> prefix_ok (enqueued ctl) \<and>
     (enqueued ctl = [] \<or> same_partial (last (enqueued ctl)) (PartialFrame (lastSent st)) \<or>
      \<not> same_partial (last (enqueued ctl)) (last (enqueued ctl)))"

definition finished :: "controller \<Rightarrow> bool" where
  "finished ctl \<longleftrightarrow>
     is_closed ctl \<and>
     (\<exists>pre t. enqueued ctl = pre @ [t] \<and> prefix_ok pre \<and> is_terminal t)"

text \<open>
  A piece of an attempt is uniform when, on every open stream, it ends the same way,
  leaves the same variables and appends the same non-terminal frames.
\<close>

definition uniform ::
    "(stream_state \<Rightarrow> controller \<Rightarrow> completion \<times> stream_state \<times> controller) \<Rightarrow> bool" where
  "uniform f \<longleftrightarrow>
     (\<forall>st. \<exists>c st' fs.
        list_all (\<lambda>fr. \<not> is_terminal fr) fs \<and>
        (\<forall>ctl. \<not> is_closed ctl \<longrightarrow> f st ctl = (c, st', ctl\<lparr>enqueued := enqueued ctl @ fs\<rparr>)))"

text \<open>
  How the read loop of an attempt ends and the text it has aggregated by then, observed
  on a stream of its own.
\<close>

definition stream_outcome :: "read_result list \<Rightarrow> completion \<times> jsstring" where
  "stream_outcome reads =
     (case read_loop reads \<lparr>buffer = [], aggregated = [], lastSent = []\<rparr>
             \<lparr>enqueued = [], is_closed = False\<rparr> of
        (c, st, _) \<Rightarrow> (c, aggregated st))"

text \<open>
  The failure record the loop pushes for a candidate after which it goes on to the next
  one: a status that is not a success with a message that asks for a retry, a missing
  body, or a stream that ends without a usable answer. \<open>None\<close> for a candidate that ends
  the request.
\<close>

fun failure_of :: "jsstring \<times> fetch_result \<Rightarrow> failure option" where
  "failure_of (candidate, FetchError) = None"
| "failure_of (candidate, Response st errorPayload body) =
     (if \<not> response_ok st then
        (if shouldRetry st (extractErrorMessage errorPayload)
         then Some \<lparr>model = candidate, status = st, message = extractErrorMessage errorPayload\<rparr>
         else None)
      else
        (case body of
           None \<Rightarrow> Some \<lparr>model = candidate, status = 502, message = EMPTY_RESPONSE_MESSAGE\<rparr>
         | Some reads \<Rightarrow>
             (case stream_outcome reads of
                (Normal, text) \<Rightarrow>
                  if collectReplies (trim text) = []
                  then Some \<lparr>model = candidate, status = 502, message = NO_ANSWER_MESSAGE\<rparr>
                  else None
              | _ \<Rightarrow> None)))"

text \<open>
  A provider stream used as a concrete input below: two chunks with three \<open>data:\<close>
  events whose deltas are \<open>Hi there!\<close>, \<open> Bye now!\<close> and a single space, then \<open>[DONE]\<close>.
\<close>

definition example_stream :: "read_result list" where
  "example_stream =
     [Chunk (ascii ''data: {\"choices\":[{\"delta\":{\"content\":\"Hi there!\"}}]}'' @ [10, 10]),
      Chunk (ascii ''data: {\"choices\":[{\"delta\":{\"content\":\" Bye now!\"}}]}'' @ [10] @
             ascii ''data: {\"choices\":[{\"delta\":{\"content\":\" \"}}]}'' @ [10, 10] @
             ascii ''data: [DONE]'' @ [10, 10])]"

section \<open>Intensity and sampling parameters: proofs\<close>

subsection \<open>The effective intensity\<close>

lemma parseInt10_cases: "parseInt10 s = NaN \<or> (\<exists>n::int. parseInt10 s = Finite (of_int n))"
  unfolding parseInt10_def Let_def by (simp only: split: if_splits) blast

lemma clamp_range: "1 \<le> clampIntensity v \<and> clampIntensity v \<le> 10"
  by (cases v) (simp_all add: MIN_INTENSITY_def MAX_INTENSITY_def DEFAULT_INTENSITY_def)

lemma clamp_int: "clampIntensity (Finite (of_int n)) \<in> \<int>"
  by (simp add: MIN_INTENSITY_def MAX_INTENSITY_def min_def max_def)

text \<open>
  C2 (amended): the effective intensity always lies in \<open>[1, 10]\<close>. A string goes
  through \<open>parseInt\<close> and the clamp, which gives an integer, and the default \<open>6\<close> when
  no digits are read; any value that is neither a number nor a string gives \<open>6\<close>, as
  does \<open>NaN\<close>; a number supplied directly is clamped into \<open>[1, 10]\<close> and is not
  rounded.
\<close>

theorem parsedIntensity_range:
  "1 \<le> parsedIntensity x \<and> parsedIntensity x \<le> 10
   \<and> parsedIntensity (IString s) \<in> \<int>
   \<and> parsedIntensity (IString s) = (case parseInt10 s of NaN \<Rightarrow> 6 | Finite v \<Rightarrow> min (max v 1) 10 | NegInfinity \<Rightarrow> 1 | Infinity \<Rightarrow> 10)
   \<and> parsedIntensity IOther = 6
   \<and> parsedIntensity (INumber NaN) = 6
   \<and> parsedIntensity (INumber (Finite q)) = min (max q 1) 10"
proof -
  have a: "1 \<le> parsedIntensity x \<and> parsedIntensity x \<le> 10"
    by (cases x) (simp_all add: clamp_range DEFAULT_INTENSITY_def)
  have b: "parsedIntensity (IString s) \<in> \<int>"
    using parseInt10_cases[of s] clamp_int by (auto simp: DEFAULT_INTENSITY_def)
  have c: "parsedIntensity (IString s) = (case parseInt10 s of NaN \<Rightarrow> 6 | Finite v \<Rightarrow> min (max v 1) 10 | NegInfinity \<Rightarrow> 1 | Infinity \<Rightarrow> 10)"
    by (cases "parseInt10 s") (simp_all add: MIN_INTENSITY_def MAX_INTENSITY_def DEFAULT_INTENSITY_def)
  show ?thesis using a b c by (simp add: MIN_INTENSITY_def MAX_INTENSITY_def DEFAULT_INTENSITY_def)
qed

theorem parsedIntensity_range_witness:
  "1 \<le> parsedIntensity (IString (ascii ''42'')) \<and> parsedIntensity (IString (ascii ''42'')) \<le> 10
   \<and> parsedIntensity (IString (ascii ''7.9'')) \<in> \<int>
   \<and> parsedIntensity (IString (ascii ''7.9'')) = 7
   \<and> parsedIntensity (INumber (Finite (11 / 2))) = 11 / 2"
  using parsedIntensity_range [of "IString (ascii ''42'')" "ascii ''7.9''" "11 / 2"]
  by (simp add: ascii_def parseInt10_def is_ws_def is_digit_def)

lemma half_not_int: "(11 / 2 :: rat) \<notin> \<int>"
proof
  assume "(11 / 2 :: rat) \<in> \<int>"
  then obtain n :: int where "(11 / 2 :: rat) = of_int n" by (auto elim: Ints_cases)
  then have "(of_int 11 :: rat) = of_int (2 * n)" by simp
  then have "11 = 2 * n" by (simp only: of_int_eq_iff)
  then show False by presburger
qed

text \<open>
  C2, as stated, fails: a number supplied directly is clamped but never rounded, so
  the request body \<open>{"intensity": 5.5}\<close> gives the effective intensity \<open>5.5\<close>, which
  is not an integer.
\<close>

theorem parsedIntensity_integer_counterexample: "parsedIntensity (INumber (Finite (11 / 2))) \<notin> \<int>"
  using half_not_int by (simp add: MIN_INTENSITY_def MAX_INTENSITY_def)

subsection \<open>Rounding to a double\<close>

lemma ilog2_bounds: "0 < n \<Longrightarrow> 2 ^ ilog2 n \<le> n \<and> n < 2 ^ Suc (ilog2 n)"
proof (induction n rule: ilog2.induct)
  case (1 n)
  show ?case
  proof (cases "n < 2")
    case True
    then have "n = 1" using "1.prems" by simp
    then show ?thesis by (simp add: ilog2.simps [of "Suc 0"])
  next
    case False
    then have pos: "0 < n div 2" by simp
    from "1.IH" [OF False pos] have a: "2 ^ ilog2 (n div 2) \<le> n div 2"
      and b: "n div 2 < 2 ^ Suc (ilog2 (n div 2))" by simp_all
    have e: "ilog2 n = Suc (ilog2 (n div 2))" using False by (simp add: ilog2.simps [of n])
    have "2 * 2 ^ ilog2 (n div 2) \<le> 2 * (n div 2)" using a by simp
    also have "\<dots> \<le> n" by simp
    finally have lo: "2 ^ ilog2 n \<le> n" unfolding e by simp
    have "n < 2 * (n div 2) + 2" by presburger
    also have "\<dots> \<le> 2 * 2 ^ Suc (ilog2 (n div 2))" using b by simp
    finally have hi: "n < 2 ^ Suc (ilog2 n)" unfolding e by simp
    show ?thesis using lo hi by simp
  qed
qed

lemma exponent_bounds:
  assumes "0 < x"
  shows "2 powi exponent x \<le> x" and "x < 2 powi (exponent x + 1)"
proof -
  have "2 powi exponent x \<le> x \<and> x < 2 powi (exponent x + 1)"
  proof (cases "1 \<le> x")
    case True
    define n where "n = nat \<lfloor>x\<rfloor>"
    have n1: "0 < n" using True unfolding n_def by (simp add: le_floor_iff)
    have fx: "of_nat n = (of_int \<lfloor>x\<rfloor> :: rat)" using True unfolding n_def by simp
    have e: "exponent x = int (ilog2 n)" using True by (simp add: exponent_def n_def)
    from ilog2_bounds [OF n1] have a: "2 ^ ilog2 n \<le> n" and b: "n < 2 ^ Suc (ilog2 n)" by simp_all
    have "(2::rat) ^ ilog2 n \<le> of_nat n" using a by (metis of_nat_le_iff of_nat_numeral of_nat_power)
    also have "\<dots> \<le> x" unfolding fx by simp
    finally have lo: "2 powi exponent x \<le> x" unfolding e by simp
    have "n + 1 \<le> 2 ^ Suc (ilog2 n)" using b by simp
    then have "(of_nat (n + 1) :: rat) \<le> 2 ^ Suc (ilog2 n)"
      by (metis of_nat_le_iff of_nat_numeral of_nat_power)
    moreover have "x < of_nat (n + 1)" using fx by (simp add: floor_correct) linarith
    ultimately have "x < 2 ^ Suc (ilog2 n)" by linarith
    moreover have "(2::rat) powi (exponent x + 1) = 2 ^ Suc (ilog2 n)"
      unfolding e using power_int_of_nat [of "2::rat" "Suc (ilog2 n)"] by (simp add: add.commute)
    ultimately show ?thesis using lo by simp
  next
    case False
    define m where "m = \<lceil>1 / x\<rceil>"
    define n where "n = nat (m - 1)"
    have x1: "1 < 1 / x" using False assms by simp
    have m2: "2 \<le> m" unfolding m_def using x1 by (simp add: le_ceiling_iff)
    have n1: "0 < n" using m2 unfolding n_def by simp
    have nm: "int n = m - 1" using m2 unfolding n_def by simp
    have e: "exponent x = - int (ilog2 n + 1)" using False by (simp add: exponent_def n_def m_def)
    from ilog2_bounds [OF n1] have a: "2 ^ ilog2 n \<le> n" and b: "n < 2 ^ Suc (ilog2 n)" by simp_all
    have c1: "1 / x \<le> of_int m" unfolding m_def by (rule le_of_int_ceiling)
    have c2: "of_int m - 1 < 1 / x" unfolding m_def using ceiling_correct [of "1 / x"] by linarith
    have "int (n + 1) \<le> 2 ^ Suc (ilog2 n)" using b by (metis Suc_eq_plus1 Suc_leI of_nat_le_iff of_nat_numeral of_nat_power)
    then have "m \<le> 2 ^ Suc (ilog2 n)" using nm by simp
    then have "(of_int m :: rat) \<le> 2 ^ Suc (ilog2 n)" by (metis of_int_le_iff of_int_numeral of_int_power)
    then have u: "1 / x \<le> 2 ^ Suc (ilog2 n)" using c1 by linarith
    have p: "(0::rat) < 2 ^ Suc (ilog2 n)" by simp
    have "1 \<le> x * 2 ^ Suc (ilog2 n)" using u assms by (simp add: field_simps)
    then have lo': "1 / 2 ^ Suc (ilog2 n) \<le> x" using p by (simp add: field_simps)
    have e0: "exponent x = - int (Suc (ilog2 n))" and e1: "exponent x + 1 = - int (ilog2 n)"
      unfolding e by simp_all
    have pe: "(2::rat) powi exponent x = 1 / 2 ^ Suc (ilog2 n)"
      unfolding e0 by (simp only: power_int_minus_divide power_int_of_nat)
    have "int (2 ^ ilog2 n) \<le> int n" using a by simp
    then have "(2::int) ^ ilog2 n \<le> m - 1" using nm by simp
    then have "(of_int (2 ^ ilog2 n) :: rat) \<le> of_int (m - 1)" by (simp only: of_int_le_iff)
    then have "(2::rat) ^ ilog2 n \<le> of_int m - 1" by simp
    then have v: "2 ^ ilog2 n < 1 / x" using c2 by linarith
    have "x * 2 ^ ilog2 n < 1" using v assms by (simp add: field_simps)
    then have hi': "x < 1 / 2 ^ ilog2 n" by (simp add: field_simps)
    have pe1: "(2::rat) powi (exponent x + 1) = 1 / 2 ^ ilog2 n"
      unfolding e1 by (simp only: power_int_minus_divide power_int_of_nat)
    show ?thesis unfolding pe pe1 using lo' hi' by simp
  qed
  then show "2 powi exponent x \<le> x" and "x < 2 powi (exponent x + 1)" by simp_all
qed

lemma exponent_mono:
  assumes "0 < x" "x \<le> y" shows "exponent x \<le> exponent y"
proof (rule ccontr)
  assume "\<not> exponent x \<le> exponent y"
  then have "exponent y + 1 \<le> exponent x" by simp
  then have "(2::rat) powi (exponent y + 1) \<le> 2 powi exponent x"
    by (rule power_int_increasing) simp
  moreover have "y < 2 powi (exponent y + 1)" using assms by (intro exponent_bounds) simp
  moreover have "2 powi exponent x \<le> x" using assms by (intro exponent_bounds)
  ultimately show False using assms by linarith
qed

lemma round_half_even_near: "\<bar>of_int (round_half_even x) - x\<bar> \<le> 1 / 2"
proof -
  have a: "of_int \<lfloor>x\<rfloor> \<le> x" and b: "x < of_int \<lfloor>x\<rfloor> + 1" by linarith+
  show ?thesis unfolding round_half_even_def Let_def using a b by (simp split: if_splits)
qed

lemma round_half_even_of_int: "round_half_even (of_int n) = n"
  by (simp add: round_half_even_def)

lemma round_half_even_mono:
  assumes "x \<le> y" shows "round_half_even x \<le> round_half_even y"
proof (cases "x = y")
  case True
  then show ?thesis by simp
next
  case False
  then have "x < y" using assms by simp
  moreover have "of_int (round_half_even x) \<le> x + 1 / 2" using round_half_even_near [of x] by linarith
  moreover have "y - 1 / 2 \<le> of_int (round_half_even y)" using round_half_even_near [of y] by linarith
  ultimately have "(of_int (round_half_even x) :: rat) < of_int (round_half_even y) + 1" by linarith
  then have "(of_int (round_half_even x) :: rat) < of_int (round_half_even y + 1)" by simp
  then have "round_half_even x < round_half_even y + 1" by (simp only: of_int_less_iff)
  then show ?thesis by simp
qed

lemma fl_pos:
  "0 < x \<Longrightarrow> fl x = of_int (round_half_even (x / 2 powi (exponent x - 52))) * 2 powi (exponent x - 52)"
  by (simp add: fl_def Let_def)

lemma ulp_scale:
  "(2::rat) powi e = 2 ^ 52 * 2 powi (e - 52)" "(2::rat) powi (e + 1) = 2 ^ 53 * 2 powi (e - 52)"
  using power_int_add [of "2::rat" 52 "e - 52"] power_int_add [of "2::rat" 53 "e - 52"] by (simp_all add: add.commute)

lemma fl_bounds:
  assumes "0 < x"
  shows "2 powi exponent x \<le> fl x" and "fl x \<le> 2 powi (exponent x + 1)"
proof -
  define u :: rat where "u = 2 powi (exponent x - 52)"
  have u: "0 < u" unfolding u_def by simp
  have lo: "2 ^ 52 * u \<le> x" using exponent_bounds(1) [OF assms] ulp_scale(1) [of "exponent x"] by (simp add: u_def)
  have hi: "x < 2 ^ 53 * u" using exponent_bounds(2) [OF assms] ulp_scale(2) [of "exponent x"] by (simp add: u_def)
  have "of_int (2 ^ 52) \<le> x / u" using lo u by (simp add: field_simps)
  from round_half_even_mono [OF this] have "2 ^ 52 \<le> round_half_even (x / u)"
    by (simp only: round_half_even_of_int)
  then have "(of_int (2 ^ 52) :: rat) \<le> of_int (round_half_even (x / u))" by (simp only: of_int_le_iff)
  then have "2 ^ 52 * u \<le> of_int (round_half_even (x / u)) * u" using u by simp
  then show "2 powi exponent x \<le> fl x"
    unfolding fl_pos [OF assms] ulp_scale(1) [of "exponent x"] u_def .
  have "x / u \<le> of_int (2 ^ 53)" using hi u by (simp add: field_simps)
  from round_half_even_mono [OF this] have "round_half_even (x / u) \<le> 2 ^ 53"
    by (simp only: round_half_even_of_int)
  then have "(of_int (round_half_even (x / u)) :: rat) \<le> of_int (2 ^ 53)" by (simp only: of_int_le_iff)
  then have "of_int (round_half_even (x / u)) * u \<le> 2 ^ 53 * u" using u by simp
  then show "fl x \<le> 2 powi (exponent x + 1)"
    unfolding fl_pos [OF assms] ulp_scale(2) [of "exponent x"] u_def .
qed

lemma fl_nonneg: "0 \<le> x \<Longrightarrow> 0 \<le> fl x"
proof (cases "x = 0")
  case True
  then show ?thesis by (simp add: fl_def)
next
  case False
  assume "0 \<le> x"
  then have p: "0 < x" using False by simp
  have "(0::rat) \<le> 2 powi exponent x" by simp
  then show ?thesis using fl_bounds(1) [OF p] by linarith
qed

lemma fl_mono:
  assumes "0 \<le> x" "x \<le> y" shows "fl x \<le> fl y"
proof (cases "x = 0")
  case True
  then show ?thesis using fl_nonneg [of y] assms by (simp add: fl_def)
next
  case False
  then have px: "0 < x" using assms by simp
  then have py: "0 < y" using assms by simp
  have le: "exponent x \<le> exponent y" using px assms(2) by (rule exponent_mono)
  show ?thesis
  proof (cases "exponent x = exponent y")
    case True
    define u :: rat where "u = 2 powi (exponent y - 52)"
    have u: "0 < u" unfolding u_def by simp
    have "x / u \<le> y / u" using assms(2) u by (simp add: divide_right_mono)
    then have "round_half_even (x / u) \<le> round_half_even (y / u)" by (rule round_half_even_mono)
    then have "(of_int (round_half_even (x / u)) :: rat) \<le> of_int (round_half_even (y / u))"
      by (simp only: of_int_le_iff)
    then have "of_int (round_half_even (x / u)) * u \<le> of_int (round_half_even (y / u)) * u"
      using u by simp
    then show ?thesis unfolding fl_pos [OF px] fl_pos [OF py] True u_def .
  next
    case False
    then have "exponent x + 1 \<le> exponent y" using le by simp
    then have "(2::rat) powi (exponent x + 1) \<le> 2 powi exponent y"
      by (rule power_int_increasing) simp
    then show ?thesis using fl_bounds(2) [OF px] fl_bounds(1) [OF py] by linarith
  qed
qed

lemma fl_error:
  assumes "0 \<le> x" shows "\<bar>fl x - x\<bar> \<le> x / 2 ^ 53"
proof (cases "x = 0")
  case True
  then show ?thesis by (simp add: fl_def)
next
  case False
  then have p: "0 < x" using assms by simp
  define u :: rat where "u = 2 powi (exponent x - 52)"
  have u: "0 < u" unfolding u_def by simp
  have lo: "2 ^ 52 * u \<le> x" using exponent_bounds(1) [OF p] ulp_scale(1) [of "exponent x"] by (simp add: u_def)
  have "fl x - x = (of_int (round_half_even (x / u)) - x / u) * u"
    unfolding fl_pos [OF p] u_def [symmetric] using u by (simp add: field_simps)
  then have "\<bar>fl x - x\<bar> = \<bar>of_int (round_half_even (x / u)) - x / u\<bar> * u"
    using u by (simp add: abs_mult)
  also have "\<dots> \<le> 1 / 2 * u" using round_half_even_near [of "x / u"] u by (simp add: mult_right_mono)
  also have "\<dots> \<le> x / 2 ^ 53" using lo by simp
  finally show ?thesis .
qed


lemma fl_error_bounds:
  assumes "0 \<le> x"
  shows "x - x / 9007199254740992 \<le> fl x" and "fl x \<le> x + x / 9007199254740992"
proof -
  have e: "\<bar>fl x - x\<bar> \<le> x / 9007199254740992" using fl_error [OF assms] by simp
  show "x - x / 9007199254740992 \<le> fl x" using e by linarith
  show "fl x \<le> x + x / 9007199254740992" using e by linarith
qed

subsection \<open>Certified values\<close>

text \<open>
  A value of \<open>fl\<close> is checked from its exponent and its multiplier, and a value of
  \<open>toFixed2\<close> from its integer, without running the search for them.
\<close>

lemma exponent_unique:
  assumes "0 < x" "2 powi e \<le> x" "x < 2 powi (e + 1)" shows "exponent x = e"
proof (rule ccontr)
  assume ne: "exponent x \<noteq> e"
  show False
  proof (cases "exponent x < e")
    case True
    then have "exponent x + 1 \<le> e" by simp
    then have "(2::rat) powi (exponent x + 1) \<le> 2 powi e" by (rule power_int_increasing) simp
    then show False using exponent_bounds(2) [OF assms(1)] assms(2) by linarith
  next
    case False
    then have "e + 1 \<le> exponent x" using ne by simp
    then have "(2::rat) powi (e + 1) \<le> 2 powi exponent x" by (rule power_int_increasing) simp
    then show False using exponent_bounds(1) [OF assms(1)] assms(3) by linarith
  qed
qed

lemma round_half_even_unique:
  assumes "\<bar>x - of_int m\<bar> < 1 / 2 \<or> (\<bar>x - of_int m\<bar> = 1 / 2 \<and> even m)"
  shows "round_half_even x = m"
proof (cases "\<bar>x - of_int m\<bar> < 1 / 2")
  case True
  have "\<bar>(of_int (round_half_even x) :: rat) - of_int m\<bar> < 1"
    using round_half_even_near [of x] True by linarith
  then have "\<bar>(of_int (round_half_even x - m) :: rat)\<bar> < of_int 1" by simp
  then have "\<bar>round_half_even x - m\<bar> < 1" by (simp only: of_int_abs [symmetric] of_int_less_iff)
  then show ?thesis by simp
next
  case False
  then have tie: "\<bar>x - of_int m\<bar> = 1 / 2" and ev: "even m" using assms by simp_all
  show ?thesis
  proof (cases "x \<le> of_int m")
    case True
    then have x: "x = of_int (m - 1) + 1 / 2" using tie by simp
    have f: "\<lfloor>x\<rfloor> = m - 1" unfolding x by (rule floor_unique) simp_all
    have o: "odd (m - 1)" using ev by simp
    show ?thesis unfolding round_half_even_def Let_def f using o by (simp add: x)
  next
    case False
    then have x: "x = of_int m + 1 / 2" using tie by simp
    have f: "\<lfloor>x\<rfloor> = m" unfolding x by (rule floor_unique) simp_all
    show ?thesis unfolding round_half_even_def Let_def f using ev by (simp add: x)
  qed
qed

lemma fl_cert:
  assumes "0 < x" and "2 powi e \<le> x" and "x < 2 powi (e + 1)"
    and "y = of_int m * 2 powi (e - 52)"
    and "\<bar>x - y\<bar> * 2 < 2 powi (e - 52) \<or> (\<bar>x - y\<bar> * 2 = 2 powi (e - 52) \<and> even m)"
  shows "fl x = y"
proof -
  define u :: rat where "u = 2 powi (e - 52)"
  have u: "0 < u" unfolding u_def by simp
  have ex: "exponent x = e" using assms(1-3) by (rule exponent_unique)
  have "x / u - of_int m = (x - y) / u"
    unfolding assms(4) u_def [symmetric] using u by (simp add: field_simps)
  then have d: "\<bar>x / u - of_int m\<bar> = \<bar>x - y\<bar> / u" using u by simp
  have "\<bar>x - y\<bar> / u < 1 / 2 \<or> (\<bar>x - y\<bar> / u = 1 / 2 \<and> even m)"
    using assms(5) u unfolding u_def [symmetric] by (auto simp: field_simps)
  then have "round_half_even (x / u) = m" unfolding d [symmetric] by (rule round_half_even_unique)
  then show ?thesis unfolding fl_pos [OF assms(1)] ex assms(4) u_def by simp
qed

lemma fl_0: "fl 0 = 0"
  by (simp add: fl_def)

lemma toFixed2_cert:
  assumes "0 \<le> x" and "of_int n \<le> x * 100 + 1 / 2" and "x * 100 + 1 / 2 < of_int n + 1"
    and "y = of_int n / 100"
  shows "toFixed2 x = y"
proof -
  have "\<lfloor>x * 100 + 1 / 2\<rfloor> = n" using assms(2,3) by (rule floor_unique)
  then show ?thesis using assms(1) unfolding assms(4) by (simp add: toFixed2_def)
qed

text \<open>
  The values of the double operations in the two computations at the intensities
  \<open>1, ..., 10\<close>, \<open>6062537959921821 / 2^52\<close>, \<open>167 / 32\<close> and \<open>257 / 32\<close>.
\<close>

lemma fl_values:
  "fl (16225927682921331939487395828405 / 649037107316853453566312041152512) = 900719925474099 / 36028797018963968"
  "fl (1558938332551325 / 40532396646334464) = 2771445924535689 / 72057594037927936"
  "fl (11718725548776520439191765889115 / 162259276829213363391578010288128) = 2602079784702953 / 36028797018963968"
  "fl (7211523414631705039625689346139 / 81129638414606681695789005144064) = 6405119470038039 / 72057594037927936"
  "fl (1 / 10) = 3602879701896397 / 36028797018963968"
  "fl (3602879701896397 / 36028797018963968) = 3602879701896397 / 36028797018963968"
  "fl (1 / 9) = 2001599834386887 / 18014398509481984"
  "fl (11718725548776520439191765889115 / 81129638414606681695789005144064) = 2602079784702953 / 18014398509481984"
  "fl (7211523414631705039625689346139 / 40564819207303340847894502572032) = 6405119470038039 / 36028797018963968"
  "fl (13610878873830833 / 72057594037927936) = 850679929614427 / 4503599627370496"
  "fl (35156176646329561317575297667345 / 162259276829213363391578010288128) = 1951559838527215 / 9007199254740992"
  "fl (2 / 9) = 2001599834386887 / 9007199254740992"
  "fl (21634570243895115118877068038417 / 81129638414606681695789005144064) = 4803839602528529 / 18014398509481984"
  "fl (2501999792983609 / 9007199254740992) = 2501999792983609 / 9007199254740992"
  "fl (11718725548776520439191765889115 / 40564819207303340847894502572032) = 2602079784702953 / 9007199254740992"
  "fl (1 / 3) = 6004799503160661 / 18014398509481984"
  "fl (1558938332551325 / 4503599627370496) = 1558938332551325 / 4503599627370496"
  "fl (3152519739159347 / 9007199254740992) = 3152519739159347 / 9007199254740992"
  "fl (7 / 20) = 3152519739159347 / 9007199254740992"
  "fl (7211523414631705039625689346139 / 20282409603651670423947251286016) = 6405119470038039 / 18014398509481984"
  "fl (14648406935970652012659586256805 / 40564819207303340847894502572032) = 813149932719673 / 2251799813685248"
  "fl (13210558906953455 / 36028797018963968) = 825659931684591 / 2251799813685248"
  "fl (37 / 100) = 3332663724254167 / 9007199254740992"
  "fl (13510798882111487 / 36028797018963968) = 3 / 8"
  "fl (54043195528445955 / 144115188075855872) = 3 / 8"
  "fl (19 / 50) = 3422735716801577 / 9007199254740992"
  "fl (15212158741340341 / 36028797018963968) = 3803039685335085 / 9007199254740992"
  "fl (35156176646329561317575297667345 / 81129638414606681695789005144064) = 1951559838527215 / 4503599627370496"
  "fl (4 / 9) = 2001599834386887 / 4503599627370496"
  "fl (9014404268289632200252037156773 / 20282409603651670423947251286016) = 8006399337547549 / 18014398509481984"
  "fl (16413118641972475 / 36028797018963968) = 4103279660493119 / 9007199254740992"
  "fl (15 / 32) = 15 / 32"
  "fl (47 / 100) = 2116691824864133 / 4503599627370496"
  "fl (17113678584007885 / 36028797018963968) = 4278419646001971 / 9007199254740992"
  "fl (12 / 25) = 1080863910568919 / 2251799813685248"
  "fl (8907119263021647 / 18014398509481984) = 8907119263021647 / 18014398509481984"
  "fl (41015539420717824464510938402725 / 81129638414606681695789005144064) = 569204952903771 / 1125899906842624"
  "fl (21634570243895115118877068038417 / 40564819207303340847894502572032) = 4803839602528529 / 9007199254740992"
  "fl (19615678376991495 / 36028797018963968) = 2451959797123937 / 4503599627370496"
  "fl (5 / 9) = 2501999792983609 / 4503599627370496"
  "fl (2552039788843281 / 4503599627370496) = 2552039788843281 / 4503599627370496"
  "fl (11718725548776520439191765889115 / 20282409603651670423947251286016) = 2602079784702953 / 4503599627370496"
  "fl (25240331951210969440129763659685 / 40564819207303340847894502572032) = 1401119884070821 / 2251799813685248"
  "fl (90071992547409925 / 144115188075855872) = 5 / 8"
  "fl (22818238112010513 / 36028797018963968) = 1426139882000657 / 2251799813685248"
  "fl (1438649880965575 / 2251799813685248) = 1438649880965575 / 2251799813685248"
  "fl (13 / 20) = 5854679515581645 / 9007199254740992"
  "fl (5854679515581645 / 9007199254740992) = 5854679515581645 / 9007199254740992"
  "fl (2 / 3) = 6004799503160661 / 9007199254740992"
  "fl (7211523414631705039625689346139 / 10141204801825835211973625643008) = 6405119470038039 / 9007199254740992"
  "fl (6405119470038039 / 9007199254740992) = 6405119470038039 / 9007199254740992"
  "fl (18 / 25) = 3242591731706757 / 4503599627370496"
  "fl (26020797847029533 / 36028797018963968) = 6505199461757383 / 9007199254740992"
  "fl (26120877838748877 / 36028797018963968) = 6530219459687219 / 9007199254740992"
  "fl (73 / 100) = 1643813863990231 / 2251799813685248"
  "fl (7 / 9) = 7005599420354105 / 9007199254740992"
  "fl (25 / 32) = 25 / 32"
  "fl (7055639416213777 / 9007199254740992) = 7055639416213777 / 9007199254740992"
  "fl (4 / 5) = 3602879701896397 / 4503599627370496"
  "fl (3602879701896397 / 4503599627370496) = 3602879701896397 / 4503599627370496"
  "fl (29223357582048553 / 36028797018963968) = 3652919697756069 / 4503599627370496"
  "fl (7706159362389515 / 9007199254740992) = 7706159362389515 / 9007199254740992"
  "fl (8 / 9) = 2001599834386887 / 2251799813685248"
  "fl (9 / 10) = 8106479329266893 / 9007199254740992"
  "fl (32425917317067573 / 36028797018963968) = 8106479329266893 / 9007199254740992"
  "fl (8356679308565253 / 9007199254740992) = 8356679308565253 / 9007199254740992"
  "fl (1) = 1"
  "fl (6062537959921821 / 4503599627370496) = 6062537959921821 / 4503599627370496"
  "fl (2) = 2"
  "fl (3) = 3"
  "fl (4) = 4"
  "fl (135 / 32) = 135 / 32"
  "fl (5) = 5"
  "fl (167 / 32) = 167 / 32"
  "fl (6) = 6"
  "fl (7) = 7"
  "fl (225 / 32) = 225 / 32"
  "fl (8) = 8"
  "fl (257 / 32) = 257 / 32"
  "fl (9) = 9"
proof -
  show "fl (16225927682921331939487395828405 / 649037107316853453566312041152512) = 900719925474099 / 36028797018963968"
    by (rule fl_cert [where e = "-6" and m = 7205759403792792]) simp_all
  show "fl (1558938332551325 / 40532396646334464) = 2771445924535689 / 72057594037927936"
    by (rule fl_cert [where e = "-5" and m = 5542891849071378]) simp_all
  show "fl (11718725548776520439191765889115 / 162259276829213363391578010288128) = 2602079784702953 / 36028797018963968"
    by (rule fl_cert [where e = "-4" and m = 5204159569405906]) simp_all
  show "fl (7211523414631705039625689346139 / 81129638414606681695789005144064) = 6405119470038039 / 72057594037927936"
    by (rule fl_cert [where e = "-4" and m = 6405119470038039]) simp_all
  show "fl (1 / 10) = 3602879701896397 / 36028797018963968"
    by (rule fl_cert [where e = "-4" and m = 7205759403792794]) simp_all
  show "fl (3602879701896397 / 36028797018963968) = 3602879701896397 / 36028797018963968"
    by (rule fl_cert [where e = "-4" and m = 7205759403792794]) simp_all
  show "fl (1 / 9) = 2001599834386887 / 18014398509481984"
    by (rule fl_cert [where e = "-4" and m = 8006399337547548]) simp_all
  show "fl (11718725548776520439191765889115 / 81129638414606681695789005144064) = 2602079784702953 / 18014398509481984"
    by (rule fl_cert [where e = "-3" and m = 5204159569405906]) simp_all
  show "fl (7211523414631705039625689346139 / 40564819207303340847894502572032) = 6405119470038039 / 36028797018963968"
    by (rule fl_cert [where e = "-3" and m = 6405119470038039]) simp_all
  show "fl (13610878873830833 / 72057594037927936) = 850679929614427 / 4503599627370496"
    by (rule fl_cert [where e = "-3" and m = 6805439436915416]) simp_all
  show "fl (35156176646329561317575297667345 / 162259276829213363391578010288128) = 1951559838527215 / 9007199254740992"
    by (rule fl_cert [where e = "-3" and m = 7806239354108860]) simp_all
  show "fl (2 / 9) = 2001599834386887 / 9007199254740992"
    by (rule fl_cert [where e = "-3" and m = 8006399337547548]) simp_all
  show "fl (21634570243895115118877068038417 / 81129638414606681695789005144064) = 4803839602528529 / 18014398509481984"
    by (rule fl_cert [where e = "-2" and m = 4803839602528529]) simp_all
  show "fl (2501999792983609 / 9007199254740992) = 2501999792983609 / 9007199254740992"
    by (rule fl_cert [where e = "-2" and m = 5003999585967218]) simp_all
  show "fl (11718725548776520439191765889115 / 40564819207303340847894502572032) = 2602079784702953 / 9007199254740992"
    by (rule fl_cert [where e = "-2" and m = 5204159569405906]) simp_all
  show "fl (1 / 3) = 6004799503160661 / 18014398509481984"
    by (rule fl_cert [where e = "-2" and m = 6004799503160661]) simp_all
  show "fl (1558938332551325 / 4503599627370496) = 1558938332551325 / 4503599627370496"
    by (rule fl_cert [where e = "-2" and m = 6235753330205300]) simp_all
  show "fl (3152519739159347 / 9007199254740992) = 3152519739159347 / 9007199254740992"
    by (rule fl_cert [where e = "-2" and m = 6305039478318694]) simp_all
  show "fl (7 / 20) = 3152519739159347 / 9007199254740992"
    by (rule fl_cert [where e = "-2" and m = 6305039478318694]) simp_all
  show "fl (7211523414631705039625689346139 / 20282409603651670423947251286016) = 6405119470038039 / 18014398509481984"
    by (rule fl_cert [where e = "-2" and m = 6405119470038039]) simp_all
  show "fl (14648406935970652012659586256805 / 40564819207303340847894502572032) = 813149932719673 / 2251799813685248"
    by (rule fl_cert [where e = "-2" and m = 6505199461757384]) simp_all
  show "fl (13210558906953455 / 36028797018963968) = 825659931684591 / 2251799813685248"
    by (rule fl_cert [where e = "-2" and m = 6605279453476728]) simp_all
  show "fl (37 / 100) = 3332663724254167 / 9007199254740992"
    by (rule fl_cert [where e = "-2" and m = 6665327448508334]) simp_all
  show "fl (13510798882111487 / 36028797018963968) = 3 / 8"
    by (rule fl_cert [where e = "-2" and m = 6755399441055744]) simp_all
  show "fl (54043195528445955 / 144115188075855872) = 3 / 8"
    by (rule fl_cert [where e = "-2" and m = 6755399441055744]) simp_all
  show "fl (19 / 50) = 3422735716801577 / 9007199254740992"
    by (rule fl_cert [where e = "-2" and m = 6845471433603154]) simp_all
  show "fl (15212158741340341 / 36028797018963968) = 3803039685335085 / 9007199254740992"
    by (rule fl_cert [where e = "-2" and m = 7606079370670170]) simp_all
  show "fl (35156176646329561317575297667345 / 81129638414606681695789005144064) = 1951559838527215 / 4503599627370496"
    by (rule fl_cert [where e = "-2" and m = 7806239354108860]) simp_all
  show "fl (4 / 9) = 2001599834386887 / 4503599627370496"
    by (rule fl_cert [where e = "-2" and m = 8006399337547548]) simp_all
  show "fl (9014404268289632200252037156773 / 20282409603651670423947251286016) = 8006399337547549 / 18014398509481984"
    by (rule fl_cert [where e = "-2" and m = 8006399337547549]) simp_all
  show "fl (16413118641972475 / 36028797018963968) = 4103279660493119 / 9007199254740992"
    by (rule fl_cert [where e = "-2" and m = 8206559320986238]) simp_all
  show "fl (15 / 32) = 15 / 32"
    by (rule fl_cert [where e = "-2" and m = 8444249301319680]) simp_all
  show "fl (47 / 100) = 2116691824864133 / 4503599627370496"
    by (rule fl_cert [where e = "-2" and m = 8466767299456532]) simp_all
  show "fl (17113678584007885 / 36028797018963968) = 4278419646001971 / 9007199254740992"
    by (rule fl_cert [where e = "-2" and m = 8556839292003942]) simp_all
  show "fl (12 / 25) = 1080863910568919 / 2251799813685248"
    by (rule fl_cert [where e = "-2" and m = 8646911284551352]) simp_all
  show "fl (8907119263021647 / 18014398509481984) = 8907119263021647 / 18014398509481984"
    by (rule fl_cert [where e = "-2" and m = 8907119263021647]) simp_all
  show "fl (41015539420717824464510938402725 / 81129638414606681695789005144064) = 569204952903771 / 1125899906842624"
    by (rule fl_cert [where e = "-1" and m = 4553639623230168]) simp_all
  show "fl (21634570243895115118877068038417 / 40564819207303340847894502572032) = 4803839602528529 / 9007199254740992"
    by (rule fl_cert [where e = "-1" and m = 4803839602528529]) simp_all
  show "fl (19615678376991495 / 36028797018963968) = 2451959797123937 / 4503599627370496"
    by (rule fl_cert [where e = "-1" and m = 4903919594247874]) simp_all
  show "fl (5 / 9) = 2501999792983609 / 4503599627370496"
    by (rule fl_cert [where e = "-1" and m = 5003999585967218]) simp_all
  show "fl (2552039788843281 / 4503599627370496) = 2552039788843281 / 4503599627370496"
    by (rule fl_cert [where e = "-1" and m = 5104079577686562]) simp_all
  show "fl (11718725548776520439191765889115 / 20282409603651670423947251286016) = 2602079784702953 / 4503599627370496"
    by (rule fl_cert [where e = "-1" and m = 5204159569405906]) simp_all
  show "fl (25240331951210969440129763659685 / 40564819207303340847894502572032) = 1401119884070821 / 2251799813685248"
    by (rule fl_cert [where e = "-1" and m = 5604479536283284]) simp_all
  show "fl (90071992547409925 / 144115188075855872) = 5 / 8"
    by (rule fl_cert [where e = "-1" and m = 5629499534213120]) simp_all
  show "fl (22818238112010513 / 36028797018963968) = 1426139882000657 / 2251799813685248"
    by (rule fl_cert [where e = "-1" and m = 5704559528002628]) simp_all
  show "fl (1438649880965575 / 2251799813685248) = 1438649880965575 / 2251799813685248"
    by (rule fl_cert [where e = "-1" and m = 5754599523862300]) simp_all
  show "fl (13 / 20) = 5854679515581645 / 9007199254740992"
    by (rule fl_cert [where e = "-1" and m = 5854679515581645]) simp_all
  show "fl (5854679515581645 / 9007199254740992) = 5854679515581645 / 9007199254740992"
    by (rule fl_cert [where e = "-1" and m = 5854679515581645]) simp_all
  show "fl (2 / 3) = 6004799503160661 / 9007199254740992"
    by (rule fl_cert [where e = "-1" and m = 6004799503160661]) simp_all
  show "fl (7211523414631705039625689346139 / 10141204801825835211973625643008) = 6405119470038039 / 9007199254740992"
    by (rule fl_cert [where e = "-1" and m = 6405119470038039]) simp_all
  show "fl (6405119470038039 / 9007199254740992) = 6405119470038039 / 9007199254740992"
    by (rule fl_cert [where e = "-1" and m = 6405119470038039]) simp_all
  show "fl (18 / 25) = 3242591731706757 / 4503599627370496"
    by (rule fl_cert [where e = "-1" and m = 6485183463413514]) simp_all
  show "fl (26020797847029533 / 36028797018963968) = 6505199461757383 / 9007199254740992"
    by (rule fl_cert [where e = "-1" and m = 6505199461757383]) simp_all
  show "fl (26120877838748877 / 36028797018963968) = 6530219459687219 / 9007199254740992"
    by (rule fl_cert [where e = "-1" and m = 6530219459687219]) simp_all
  show "fl (73 / 100) = 1643813863990231 / 2251799813685248"
    by (rule fl_cert [where e = "-1" and m = 6575255455960924]) simp_all
  show "fl (7 / 9) = 7005599420354105 / 9007199254740992"
    by (rule fl_cert [where e = "-1" and m = 7005599420354105]) simp_all
  show "fl (25 / 32) = 25 / 32"
    by (rule fl_cert [where e = "-1" and m = 7036874417766400]) simp_all
  show "fl (7055639416213777 / 9007199254740992) = 7055639416213777 / 9007199254740992"
    by (rule fl_cert [where e = "-1" and m = 7055639416213777]) simp_all
  show "fl (4 / 5) = 3602879701896397 / 4503599627370496"
    by (rule fl_cert [where e = "-1" and m = 7205759403792794]) simp_all
  show "fl (3602879701896397 / 4503599627370496) = 3602879701896397 / 4503599627370496"
    by (rule fl_cert [where e = "-1" and m = 7205759403792794]) simp_all
  show "fl (29223357582048553 / 36028797018963968) = 3652919697756069 / 4503599627370496"
    by (rule fl_cert [where e = "-1" and m = 7305839395512138]) simp_all
  show "fl (7706159362389515 / 9007199254740992) = 7706159362389515 / 9007199254740992"
    by (rule fl_cert [where e = "-1" and m = 7706159362389515]) simp_all
  show "fl (8 / 9) = 2001599834386887 / 2251799813685248"
    by (rule fl_cert [where e = "-1" and m = 8006399337547548]) simp_all
  show "fl (9 / 10) = 8106479329266893 / 9007199254740992"
    by (rule fl_cert [where e = "-1" and m = 8106479329266893]) simp_all
  show "fl (32425917317067573 / 36028797018963968) = 8106479329266893 / 9007199254740992"
    by (rule fl_cert [where e = "-1" and m = 8106479329266893]) simp_all
  show "fl (8356679308565253 / 9007199254740992) = 8356679308565253 / 9007199254740992"
    by (rule fl_cert [where e = "-1" and m = 8356679308565253]) simp_all
  show "fl (1) = 1"
    by (rule fl_cert [where e = "0" and m = 4503599627370496]) simp_all
  show "fl (6062537959921821 / 4503599627370496) = 6062537959921821 / 4503599627370496"
    by (rule fl_cert [where e = "0" and m = 6062537959921821]) simp_all
  show "fl (2) = 2"
    by (rule fl_cert [where e = "1" and m = 4503599627370496]) simp_all
  show "fl (3) = 3"
    by (rule fl_cert [where e = "1" and m = 6755399441055744]) simp_all
  show "fl (4) = 4"
    by (rule fl_cert [where e = "2" and m = 4503599627370496]) simp_all
  show "fl (135 / 32) = 135 / 32"
    by (rule fl_cert [where e = "2" and m = 4749890231992320]) simp_all
  show "fl (5) = 5"
    by (rule fl_cert [where e = "2" and m = 5629499534213120]) simp_all
  show "fl (167 / 32) = 167 / 32"
    by (rule fl_cert [where e = "2" and m = 5875790138834944]) simp_all
  show "fl (6) = 6"
    by (rule fl_cert [where e = "2" and m = 6755399441055744]) simp_all
  show "fl (7) = 7"
    by (rule fl_cert [where e = "2" and m = 7881299347898368]) simp_all
  show "fl (225 / 32) = 225 / 32"
    by (rule fl_cert [where e = "2" and m = 7916483719987200]) simp_all
  show "fl (8) = 8"
    by (rule fl_cert [where e = "3" and m = 4503599627370496]) simp_all
  show "fl (257 / 32) = 257 / 32"
    by (rule fl_cert [where e = "3" and m = 4521191813414912]) simp_all
  show "fl (9) = 9"
    by (rule fl_cert [where e = "3" and m = 5066549580791808]) simp_all
qed

lemma toFixed2_values:
  "toFixed2 (3602879701896397 / 36028797018963968) = 1 / 10"
  "toFixed2 (850679929614427 / 4503599627370496) = 19 / 100"
  "toFixed2 (2501999792983609 / 9007199254740992) = 7 / 25"
  "toFixed2 (3152519739159347 / 9007199254740992) = 7 / 20"
  "toFixed2 (825659931684591 / 2251799813685248) = 37 / 100"
  "toFixed2 (3 / 8) = 19 / 50"
  "toFixed2 (3803039685335085 / 9007199254740992) = 21 / 50"
  "toFixed2 (4103279660493119 / 9007199254740992) = 23 / 50"
  "toFixed2 (4278419646001971 / 9007199254740992) = 47 / 100"
  "toFixed2 (8907119263021647 / 18014398509481984) = 49 / 100"
  "toFixed2 (2451959797123937 / 4503599627370496) = 27 / 50"
  "toFixed2 (2552039788843281 / 4503599627370496) = 57 / 100"
  "toFixed2 (1426139882000657 / 2251799813685248) = 63 / 100"
  "toFixed2 (1438649880965575 / 2251799813685248) = 16 / 25"
  "toFixed2 (6405119470038039 / 9007199254740992) = 71 / 100"
  "toFixed2 (6505199461757383 / 9007199254740992) = 18 / 25"
  "toFixed2 (6530219459687219 / 9007199254740992) = 18 / 25"
  "toFixed2 (7055639416213777 / 9007199254740992) = 39 / 50"
  "toFixed2 (3652919697756069 / 4503599627370496) = 81 / 100"
  "toFixed2 (7706159362389515 / 9007199254740992) = 43 / 50"
  "toFixed2 (8106479329266893 / 9007199254740992) = 9 / 10"
  "toFixed2 (8356679308565253 / 9007199254740992) = 93 / 100"
  "toFixed2 (1) = 1"
proof -
  show "toFixed2 (3602879701896397 / 36028797018963968) = 1 / 10"
    by (rule toFixed2_cert [where n = 10]) simp_all
  show "toFixed2 (850679929614427 / 4503599627370496) = 19 / 100"
    by (rule toFixed2_cert [where n = 19]) simp_all
  show "toFixed2 (2501999792983609 / 9007199254740992) = 7 / 25"
    by (rule toFixed2_cert [where n = 28]) simp_all
  show "toFixed2 (3152519739159347 / 9007199254740992) = 7 / 20"
    by (rule toFixed2_cert [where n = 35]) simp_all
  show "toFixed2 (825659931684591 / 2251799813685248) = 37 / 100"
    by (rule toFixed2_cert [where n = 37]) simp_all
  show "toFixed2 (3 / 8) = 19 / 50"
    by (rule toFixed2_cert [where n = 38]) simp_all
  show "toFixed2 (3803039685335085 / 9007199254740992) = 21 / 50"
    by (rule toFixed2_cert [where n = 42]) simp_all
  show "toFixed2 (4103279660493119 / 9007199254740992) = 23 / 50"
    by (rule toFixed2_cert [where n = 46]) simp_all
  show "toFixed2 (4278419646001971 / 9007199254740992) = 47 / 100"
    by (rule toFixed2_cert [where n = 47]) simp_all
  show "toFixed2 (8907119263021647 / 18014398509481984) = 49 / 100"
    by (rule toFixed2_cert [where n = 49]) simp_all
  show "toFixed2 (2451959797123937 / 4503599627370496) = 27 / 50"
    by (rule toFixed2_cert [where n = 54]) simp_all
  show "toFixed2 (2552039788843281 / 4503599627370496) = 57 / 100"
    by (rule toFixed2_cert [where n = 57]) simp_all
  show "toFixed2 (1426139882000657 / 2251799813685248) = 63 / 100"
    by (rule toFixed2_cert [where n = 63]) simp_all
  show "toFixed2 (1438649880965575 / 2251799813685248) = 16 / 25"
    by (rule toFixed2_cert [where n = 64]) simp_all
  show "toFixed2 (6405119470038039 / 9007199254740992) = 71 / 100"
    by (rule toFixed2_cert [where n = 71]) simp_all
  show "toFixed2 (6505199461757383 / 9007199254740992) = 18 / 25"
    by (rule toFixed2_cert [where n = 72]) simp_all
  show "toFixed2 (6530219459687219 / 9007199254740992) = 18 / 25"
    by (rule toFixed2_cert [where n = 72]) simp_all
  show "toFixed2 (7055639416213777 / 9007199254740992) = 39 / 50"
    by (rule toFixed2_cert [where n = 78]) simp_all
  show "toFixed2 (3652919697756069 / 4503599627370496) = 81 / 100"
    by (rule toFixed2_cert [where n = 81]) simp_all
  show "toFixed2 (7706159362389515 / 9007199254740992) = 43 / 50"
    by (rule toFixed2_cert [where n = 86]) simp_all
  show "toFixed2 (8106479329266893 / 9007199254740992) = 9 / 10"
    by (rule toFixed2_cert [where n = 90]) simp_all
  show "toFixed2 (8356679308565253 / 9007199254740992) = 93 / 100"
    by (rule toFixed2_cert [where n = 93]) simp_all
  show "toFixed2 (1) = 1"
    by (rule toFixed2_cert [where n = 100]) simp_all
qed

lemma fl_consts:
  "fl 0 = 0" "fl 1 = 1" "fl 9 = 9"
  "fl (35 / 100) = 3152519739159347 / 9007199254740992"
  "fl (65 / 100) = 5854679515581645 / 9007199254740992"
  "fl (1 / 10) = 3602879701896397 / 36028797018963968"
  "fl (8 / 10) = 3602879701896397 / 4503599627370496"
  by (simp_all add: fl_0 fl_values)

subsection \<open>The sampling parameters\<close>

lemma toFixed2_near:
  assumes "0 \<le> x" shows "\<bar>toFixed2 x - x\<bar> \<le> 1 / 200"
proof -
  define n :: rat where "n = of_int \<lfloor>x * 100 + 1 / 2\<rfloor>"
  have a: "n \<le> x * 100 + 1 / 2" unfolding n_def by (rule of_int_floor_le)
  have b: "x * 100 + 1 / 2 < n + 1" unfolding n_def by linarith
  have c: "toFixed2 x = n / 100" using assms by (simp add: toFixed2_def n_def)
  show ?thesis unfolding c using a b by linarith
qed

lemma toFixed2_mono: "0 \<le> x \<Longrightarrow> x \<le> y \<Longrightarrow> toFixed2 x \<le> toFixed2 y"
  unfolding toFixed2_def
  by (simp add: divide_right_mono floor_mono)

lemma toFixed2_nonneg: "0 \<le> x \<Longrightarrow> 0 \<le> toFixed2 x"
  unfolding toFixed2_def by simp

lemma temperature_unfold:
  "mapIntensityToTemperature i =
     fl (toFixed2 (fl (fl (35 / 100) + fl (fl (fl (i - 1) / 9) * fl (65 / 100)))))"
  by (simp add: mapIntensityToTemperature_def MIN_INTENSITY_def MAX_INTENSITY_def fl_consts(3))

lemma presence_unfold:
  "mapIntensityToPresencePenalty i =
     fl (toFixed2 (fl (fl (1 / 10) + fl (fl (fl (i - 1) / 9) * fl (8 / 10)))))"
  by (simp add: mapIntensityToPresencePenalty_def MIN_INTENSITY_def MAX_INTENSITY_def fl_consts(3))

lemma normalized_mono:
  assumes "1 \<le> i" "i \<le> j"
  shows "0 \<le> fl (fl (i - 1) / 9)" and "fl (fl (i - 1) / 9) \<le> fl (fl (j - 1) / 9)"
proof -
  have a: "0 \<le> fl (i - 1)" using assms by (intro fl_nonneg) simp
  have b: "fl (i - 1) \<le> fl (j - 1)" using assms by (intro fl_mono) simp_all
  show "0 \<le> fl (fl (i - 1) / 9)" using a by (intro fl_nonneg) simp
  show "fl (fl (i - 1) / 9) \<le> fl (fl (j - 1) / 9)" using a b by (intro fl_mono) simp_all
qed

lemma sum_mono:
  assumes "0 \<le> a" "0 \<le> b" "0 \<le> n" "n \<le> n'"
  shows "0 \<le> fl (a + fl (n * b))" and "fl (a + fl (n * b)) \<le> fl (a + fl (n' * b))"
proof -
  have p: "0 \<le> n * b" using assms by simp
  have q: "n * b \<le> n' * b" using assms by (simp add: mult_right_mono)
  have r: "0 \<le> fl (n * b)" using p by (rule fl_nonneg)
  have t: "fl (n * b) \<le> fl (n' * b)" using p q by (rule fl_mono)
  show "0 \<le> fl (a + fl (n * b))" using assms(1) r by (intro fl_nonneg) simp
  show "fl (a + fl (n * b)) \<le> fl (a + fl (n' * b))" using assms(1) r t by (intro fl_mono) simp_all
qed

lemma print_mono:
  assumes "0 \<le> x" "x \<le> y" shows "fl (toFixed2 x) \<le> fl (toFixed2 y)"
  using assms by (intro fl_mono toFixed2_mono toFixed2_nonneg)

lemma sampling_mono:
  assumes "1 \<le> i" "i \<le> j"
  shows "mapIntensityToTemperature i \<le> mapIntensityToTemperature j"
    and "mapIntensityToPresencePenalty i \<le> mapIntensityToPresencePenalty j"
proof -
  note n = normalized_mono [OF assms]
  have a: "0 \<le> fl (35 / 100)" "0 \<le> fl (65 / 100)" "0 \<le> fl (1 / 10)" "0 \<le> fl (8 / 10)"
    by (rule fl_nonneg, simp)+
  show "mapIntensityToTemperature i \<le> mapIntensityToTemperature j"
    unfolding temperature_unfold
    by (rule print_mono [OF sum_mono(1) [OF a(1) a(2) n(1) n(2)] sum_mono(2) [OF a(1) a(2) n(1) n(2)]])
  show "mapIntensityToPresencePenalty i \<le> mapIntensityToPresencePenalty j"
    unfolding presence_unfold
    by (rule print_mono [OF sum_mono(1) [OF a(3) a(4) n(1) n(2)] sum_mono(2) [OF a(3) a(4) n(1) n(2)]])
qed

lemma temperature_chain:
  fixes i A N M S :: rat
  assumes i: "1 \<le> i" "i \<le> 10"
    and A: "i - 1 - (i - 1) / 9007199254740992 \<le> A" "A \<le> i - 1 + (i - 1) / 9007199254740992"
    and N: "A / 9 - A / 9 / 9007199254740992 \<le> N" "N \<le> A / 9 + A / 9 / 9007199254740992"
    and M: "N * (5854679515581645 / 9007199254740992) -
              N * (5854679515581645 / 9007199254740992) / 9007199254740992 \<le> M"
           "M \<le> N * (5854679515581645 / 9007199254740992) +
              N * (5854679515581645 / 9007199254740992) / 9007199254740992"
    and S: "3152519739159347 / 9007199254740992 + M -
              (3152519739159347 / 9007199254740992 + M) / 9007199254740992 \<le> S"
           "S \<le> 3152519739159347 / 9007199254740992 + M +
              (3152519739159347 / 9007199254740992 + M) / 9007199254740992"
  shows "\<bar>S - (35 / 100 + ((i - 1) / 9) * (65 / 100))\<bar> \<le> 1 / 10 ^ 15"
proof -
  have A1: "i - 1 - 1 / 1000000000000000 \<le> A" using i A by (simp add: field_simps)
  have A2: "A \<le> i - 1 + 1 / 1000000000000000" using i A by (simp add: field_simps)
  have N1: "(i - 1) / 9 - 3 / 10000000000000000 \<le> N" using i A1 A2 N by (simp add: field_simps)
  have N2: "N \<le> (i - 1) / 9 + 3 / 10000000000000000" using i A1 A2 N by (simp add: field_simps)
  have M1: "(i - 1) / 9 * (65 / 100) - 3 / 10000000000000000 \<le> M"
    using i N1 N2 M by (simp add: field_simps)
  have M2: "M \<le> (i - 1) / 9 * (65 / 100) + 3 / 10000000000000000"
    using i N1 N2 M by (simp add: field_simps)
  have S1: "35 / 100 + (i - 1) / 9 * (65 / 100) - 1 / 1000000000000000 \<le> S"
    using i M1 M2 S by (simp add: field_simps)
  have S2: "S \<le> 35 / 100 + (i - 1) / 9 * (65 / 100) + 1 / 1000000000000000"
    using i M1 M2 S by (simp add: field_simps)
  have "S - (35 / 100 + ((i - 1) / 9) * (65 / 100)) \<le> 1 / 10 ^ 15"
    using S2 by (simp add: field_simps)
  moreover have "- (S - (35 / 100 + ((i - 1) / 9) * (65 / 100))) \<le> 1 / 10 ^ 15"
    using S1 by (simp add: field_simps)
  ultimately show ?thesis by (rule abs_leI)
qed

lemma presence_chain:
  fixes i A N M S :: rat
  assumes i: "1 \<le> i" "i \<le> 10"
    and A: "i - 1 - (i - 1) / 9007199254740992 \<le> A" "A \<le> i - 1 + (i - 1) / 9007199254740992"
    and N: "A / 9 - A / 9 / 9007199254740992 \<le> N" "N \<le> A / 9 + A / 9 / 9007199254740992"
    and M: "N * (3602879701896397 / 4503599627370496) -
              N * (3602879701896397 / 4503599627370496) / 9007199254740992 \<le> M"
           "M \<le> N * (3602879701896397 / 4503599627370496) +
              N * (3602879701896397 / 4503599627370496) / 9007199254740992"
    and S: "3602879701896397 / 36028797018963968 + M -
              (3602879701896397 / 36028797018963968 + M) / 9007199254740992 \<le> S"
           "S \<le> 3602879701896397 / 36028797018963968 + M +
              (3602879701896397 / 36028797018963968 + M) / 9007199254740992"
  shows "\<bar>S - (1 / 10 + ((i - 1) / 9) * (8 / 10))\<bar> \<le> 1 / 10 ^ 15"
proof -
  have A1: "i - 1 - 1 / 1000000000000000 \<le> A" using i A by (simp add: field_simps)
  have A2: "A \<le> i - 1 + 1 / 1000000000000000" using i A by (simp add: field_simps)
  have N1: "(i - 1) / 9 - 3 / 10000000000000000 \<le> N" using i A1 A2 N by (simp add: field_simps)
  have N2: "N \<le> (i - 1) / 9 + 3 / 10000000000000000" using i A1 A2 N by (simp add: field_simps)
  have M1: "(i - 1) / 9 * (8 / 10) - 4 / 10000000000000000 \<le> M"
    using i N1 N2 M by (simp add: field_simps)
  have M2: "M \<le> (i - 1) / 9 * (8 / 10) + 4 / 10000000000000000"
    using i N1 N2 M by (simp add: field_simps)
  have S1: "1 / 10 + (i - 1) / 9 * (8 / 10) - 1 / 1000000000000000 \<le> S"
    using i M1 M2 S by (simp add: field_simps)
  have S2: "S \<le> 1 / 10 + (i - 1) / 9 * (8 / 10) + 1 / 1000000000000000"
    using i M1 M2 S by (simp add: field_simps)
  have "S - (1 / 10 + ((i - 1) / 9) * (8 / 10)) \<le> 1 / 10 ^ 15"
    using S2 by (simp add: field_simps)
  moreover have "- (S - (1 / 10 + ((i - 1) / 9) * (8 / 10))) \<le> 1 / 10 ^ 15"
    using S1 by (simp add: field_simps)
  ultimately show ?thesis by (rule abs_leI)
qed

lemma temperature_error:
  assumes "1 \<le> i" "i \<le> 10"
  shows "0 \<le> fl (fl (35 / 100) + fl (fl (fl (i - 1) / 9) * fl (65 / 100)))"
    and "\<bar>fl (fl (35 / 100) + fl (fl (fl (i - 1) / 9) * fl (65 / 100))) - spec_temperature i\<bar>
           \<le> 1 / 10 ^ 15"
proof -
  define A where "A = fl (i - 1)"
  define N where "N = fl (A / 9)"
  define M where "M = fl (N * (5854679515581645 / 9007199254740992))"
  define S where "S = fl (3152519739159347 / 9007199254740992 + M)"
  have x0: "0 \<le> i - 1" using assms by simp
  have A0: "0 \<le> A" unfolding A_def using x0 by (rule fl_nonneg)
  note A = fl_error_bounds [OF x0, folded A_def]
  have q0: "0 \<le> A / 9" using A0 by simp
  have N0: "0 \<le> N" unfolding N_def using q0 by (rule fl_nonneg)
  note N = fl_error_bounds [OF q0, folded N_def]
  have p0: "0 \<le> N * (5854679515581645 / 9007199254740992)" using N0 by simp
  have M0: "0 \<le> M" unfolding M_def using p0 by (rule fl_nonneg)
  note M = fl_error_bounds [OF p0, folded M_def]
  have s0: "0 \<le> 3152519739159347 / 9007199254740992 + M" using M0 by simp
  have S0: "0 \<le> S" unfolding S_def using s0 by (rule fl_nonneg)
  note S = fl_error_bounds [OF s0, folded S_def]
  have e: "fl (fl (35 / 100) + fl (fl (fl (i - 1) / 9) * fl (65 / 100))) = S"
    unfolding S_def M_def N_def A_def fl_consts ..
  show "0 \<le> fl (fl (35 / 100) + fl (fl (fl (i - 1) / 9) * fl (65 / 100)))"
    unfolding e by (rule S0)
  show "\<bar>fl (fl (35 / 100) + fl (fl (fl (i - 1) / 9) * fl (65 / 100))) - spec_temperature i\<bar>
           \<le> 1 / 10 ^ 15"
    unfolding e spec_temperature_def by (rule temperature_chain [OF assms A N M S])
qed

lemma presence_error:
  assumes "1 \<le> i" "i \<le> 10"
  shows "0 \<le> fl (fl (1 / 10) + fl (fl (fl (i - 1) / 9) * fl (8 / 10)))"
    and "\<bar>fl (fl (1 / 10) + fl (fl (fl (i - 1) / 9) * fl (8 / 10))) - spec_presence_penalty i\<bar>
           \<le> 1 / 10 ^ 15"
proof -
  define A where "A = fl (i - 1)"
  define N where "N = fl (A / 9)"
  define M where "M = fl (N * (3602879701896397 / 4503599627370496))"
  define S where "S = fl (3602879701896397 / 36028797018963968 + M)"
  have x0: "0 \<le> i - 1" using assms by simp
  have A0: "0 \<le> A" unfolding A_def using x0 by (rule fl_nonneg)
  note A = fl_error_bounds [OF x0, folded A_def]
  have q0: "0 \<le> A / 9" using A0 by simp
  have N0: "0 \<le> N" unfolding N_def using q0 by (rule fl_nonneg)
  note N = fl_error_bounds [OF q0, folded N_def]
  have p0: "0 \<le> N * (3602879701896397 / 4503599627370496)" using N0 by simp
  have M0: "0 \<le> M" unfolding M_def using p0 by (rule fl_nonneg)
  note M = fl_error_bounds [OF p0, folded M_def]
  have s0: "0 \<le> 3602879701896397 / 36028797018963968 + M" using M0 by simp
  have S0: "0 \<le> S" unfolding S_def using s0 by (rule fl_nonneg)
  note S = fl_error_bounds [OF s0, folded S_def]
  have e: "fl (fl (1 / 10) + fl (fl (fl (i - 1) / 9) * fl (8 / 10))) = S"
    unfolding S_def M_def N_def A_def fl_consts ..
  show "0 \<le> fl (fl (1 / 10) + fl (fl (fl (i - 1) / 9) * fl (8 / 10)))"
    unfolding e by (rule S0)
  show "\<bar>fl (fl (1 / 10) + fl (fl (fl (i - 1) / 9) * fl (8 / 10))) - spec_presence_penalty i\<bar>
           \<le> 1 / 10 ^ 15"
    unfolding e spec_presence_penalty_def by (rule presence_chain [OF assms A N M S])
qed

lemma toFixed2_digits:
  assumes "0 \<le> x"
  shows "\<exists>n::int. toFixed2 x = of_int n / 100 \<and> \<bar>of_int n / 100 - x\<bar> \<le> 1 / 200"
proof -
  have "toFixed2 x = of_int \<lfloor>x * 100 + 1 / 2\<rfloor> / 100" using assms by (simp add: toFixed2_def)
  then show ?thesis using toFixed2_near [OF assms] by metis
qed

lemma temperature_digits:
  assumes "1 \<le> i" "i \<le> 10"
  shows "\<exists>n::int. 35 \<le> n \<and> n \<le> 100 \<and> mapIntensityToTemperature i = fl (of_int n / 100) \<and>
           \<bar>of_int n / 100 - spec_temperature i\<bar> \<le> 1 / 200 + 1 / 10 ^ 15"
proof -
  let ?S = "fl (fl (35 / 100) + fl (fl (fl (i - 1) / 9) * fl (65 / 100)))"
  from toFixed2_digits [OF temperature_error(1) [OF assms]] obtain n :: int where
    n: "toFixed2 ?S = of_int n / 100" and d: "\<bar>of_int n / 100 - ?S\<bar> \<le> 1 / 200" by blast
  have e: "\<bar>?S - spec_temperature i\<bar> \<le> 1 / 10 ^ 15" by (rule temperature_error(2) [OF assms])
  have near: "\<bar>of_int n / 100 - spec_temperature i\<bar> \<le> 1 / 200 + 1 / 10 ^ 15"
    using d e by linarith
  have lo: "35 / 100 \<le> spec_temperature i" and hi: "spec_temperature i \<le> 1"
    using assms unfolding spec_temperature_def by (simp_all add: field_simps)
  have near1: "- (of_int n / 100 - spec_temperature i) \<le> 1 / 200 + 1 / 10 ^ 15"
    and near2: "of_int n / 100 - spec_temperature i \<le> 1 / 200 + 1 / 10 ^ 15"
    using near unfolding abs_le_iff by blast+
  have "(34 :: rat) < of_int n" using near1 lo by (simp add: field_simps)
  then have "(of_int 34 :: rat) < of_int n" by simp
  then have n1: "35 \<le> n" by (simp only: of_int_less_iff)
  have "of_int n < (101 :: rat)" using near2 hi by (simp add: field_simps)
  then have "of_int n < (of_int 101 :: rat)" by simp
  then have n2: "n \<le> 100" by (simp only: of_int_less_iff)
  have "mapIntensityToTemperature i = fl (of_int n / 100)"
    unfolding temperature_unfold n ..
  then show ?thesis using n1 n2 near by blast
qed

lemma presence_digits:
  assumes "1 \<le> i" "i \<le> 10"
  shows "\<exists>n::int. 10 \<le> n \<and> n \<le> 90 \<and> mapIntensityToPresencePenalty i = fl (of_int n / 100) \<and>
           \<bar>of_int n / 100 - spec_presence_penalty i\<bar> \<le> 1 / 200 + 1 / 10 ^ 15"
proof -
  let ?S = "fl (fl (1 / 10) + fl (fl (fl (i - 1) / 9) * fl (8 / 10)))"
  from toFixed2_digits [OF presence_error(1) [OF assms]] obtain n :: int where
    n: "toFixed2 ?S = of_int n / 100" and d: "\<bar>of_int n / 100 - ?S\<bar> \<le> 1 / 200" by blast
  have e: "\<bar>?S - spec_presence_penalty i\<bar> \<le> 1 / 10 ^ 15" by (rule presence_error(2) [OF assms])
  have near: "\<bar>of_int n / 100 - spec_presence_penalty i\<bar> \<le> 1 / 200 + 1 / 10 ^ 15"
    using d e by linarith
  have lo: "1 / 10 \<le> spec_presence_penalty i" and hi: "spec_presence_penalty i \<le> 9 / 10"
    using assms unfolding spec_presence_penalty_def by (simp_all add: field_simps)
  have near1: "- (of_int n / 100 - spec_presence_penalty i) \<le> 1 / 200 + 1 / 10 ^ 15"
    and near2: "of_int n / 100 - spec_presence_penalty i \<le> 1 / 200 + 1 / 10 ^ 15"
    using near unfolding abs_le_iff by blast+
  have "(9 :: rat) < of_int n" using near1 lo by (simp add: field_simps)
  then have "(of_int 9 :: rat) < of_int n" by simp
  then have n1: "10 \<le> n" by (simp only: of_int_less_iff)
  have "of_int n < (91 :: rat)" using near2 hi by (simp add: field_simps)
  then have "of_int n < (of_int 91 :: rat)" by simp
  then have n2: "n \<le> 90" by (simp only: of_int_less_iff)
  have "mapIntensityToPresencePenalty i = fl (of_int n / 100)"
    unfolding presence_unfold n ..
  then show ?thesis using n1 n2 near by blast
qed

lemma floor_rat_numeral: "\<lfloor>(numeral a / numeral b :: rat)\<rfloor> = numeral a div numeral b"
  using floor_divide_of_int_eq [of "numeral a" "numeral b", where ?'a = rat] by simp

lemmas sampling_eval = temperature_unfold presence_unfold fl_0 fl_values toFixed2_values

lemma temperature_table:
  "map mapIntensityToTemperature [1, 2, 3, 4, 5, 6, 7, 8, 9, 10] =
     map (\<lambda>n. fl (of_int n / 100)) [35, 42, 49, 57, 64, 71, 78, 86, 93, 100]"
  "map (\<lambda>i. toFixed2 (spec_temperature i)) [1, 2, 3, 4, 5, 6, 7, 8, 9, 10] =
     map (\<lambda>n. of_int n / 100) [35, 42, 49, 57, 64, 71, 78, 86, 93, 100]"
  by (simp_all add: sampling_eval)
     (simp_all add: spec_temperature_def toFixed2_def floor_rat_numeral)

lemma presence_table:
  "map mapIntensityToPresencePenalty [1, 2, 3, 4, 5, 6, 7, 8, 9, 10] =
     map (\<lambda>n. fl (of_int n / 100)) [10, 19, 28, 37, 46, 54, 63, 72, 81, 90]"
  "map (\<lambda>i. toFixed2 (spec_presence_penalty i)) [1, 2, 3, 4, 5, 6, 7, 8, 9, 10] =
     map (\<lambda>n. of_int n / 100) [10, 19, 28, 37, 46, 54, 63, 72, 81, 90]"
  by (simp_all add: sampling_eval)
     (simp_all add: spec_presence_penalty_def toFixed2_def floor_rat_numeral)

lemma sampling_bounds:
  assumes "1 \<le> i" "i \<le> 10"
  shows "fl (35 / 100) \<le> mapIntensityToTemperature i" "mapIntensityToTemperature i \<le> 1"
    "fl (1 / 10) \<le> mapIntensityToPresencePenalty i" "mapIntensityToPresencePenalty i \<le> fl (9 / 10)"
proof -
  have t1: "mapIntensityToTemperature 1 = fl (35 / 100)" by (simp add: sampling_eval)
  have t10: "mapIntensityToTemperature 10 = 1" by (simp add: sampling_eval)
  have p1: "mapIntensityToPresencePenalty 1 = fl (1 / 10)" by (simp add: sampling_eval)
  have p10: "mapIntensityToPresencePenalty 10 = fl (9 / 10)" by (simp add: sampling_eval)
  have o: "(1::rat) \<le> 1" by simp
  show "fl (35 / 100) \<le> mapIntensityToTemperature i"
    using sampling_mono(1) [OF o assms(1)] unfolding t1 .
  show "mapIntensityToTemperature i \<le> 1"
    using sampling_mono(1) [OF assms] unfolding t10 .
  show "fl (1 / 10) \<le> mapIntensityToPresencePenalty i"
    using sampling_mono(2) [OF o assms(1)] unfolding p1 .
  show "mapIntensityToPresencePenalty i \<le> fl (9 / 10)"
    using sampling_mono(2) [OF assms] unfolding p10 .
qed

text \<open>
  C3 (amended): the two sampling parameters are computed in double arithmetic. For
  every intensity in \<open>[1, 10]\<close> each is the double of a two-decimal number \<open>n / 100\<close>, with
  \<open>35 \<le> n \<le> 100\<close> for the temperature and \<open>10 \<le> n \<le> 90\<close> for the presence penalty, and
  \<open>n / 100\<close> lies within \<open>1/200 + 10^(-15)\<close> of the specification's formula; both are
  non-decreasing in the intensity; the temperature lies between the doubles \<open>0.35\<close> and
  \<open>1\<close>, the presence penalty between the doubles \<open>0.1\<close> and \<open>0.9\<close>. At the ten integer
  intensities the values are the formulas rounded to two decimals.
\<close>

theorem sampling_parameters:
  assumes "1 \<le> i" and "i \<le> j" and "j \<le> 10"
  shows "(\<exists>n::int. 35 \<le> n \<and> n \<le> 100 \<and> mapIntensityToTemperature i = fl (of_int n / 100) \<and>
            \<bar>of_int n / 100 - spec_temperature i\<bar> \<le> 1 / 200 + 1 / 10 ^ 15)
    \<and> (\<exists>n::int. 10 \<le> n \<and> n \<le> 90 \<and> mapIntensityToPresencePenalty i = fl (of_int n / 100) \<and>
            \<bar>of_int n / 100 - spec_presence_penalty i\<bar> \<le> 1 / 200 + 1 / 10 ^ 15)
    \<and> mapIntensityToTemperature i \<le> mapIntensityToTemperature j
    \<and> mapIntensityToPresencePenalty i \<le> mapIntensityToPresencePenalty j
    \<and> fl (35 / 100) \<le> mapIntensityToTemperature i \<and> mapIntensityToTemperature i \<le> 1
    \<and> fl (1 / 10) \<le> mapIntensityToPresencePenalty i
    \<and> mapIntensityToPresencePenalty i \<le> fl (9 / 10)
    \<and> map mapIntensityToTemperature [1, 2, 3, 4, 5, 6, 7, 8, 9, 10] =
        map (\<lambda>n. fl (of_int n / 100)) [35, 42, 49, 57, 64, 71, 78, 86, 93, 100]
    \<and> map (\<lambda>k. toFixed2 (spec_temperature k)) [1, 2, 3, 4, 5, 6, 7, 8, 9, 10] =
        map (\<lambda>n. of_int n / 100) [35, 42, 49, 57, 64, 71, 78, 86, 93, 100]
    \<and> map mapIntensityToPresencePenalty [1, 2, 3, 4, 5, 6, 7, 8, 9, 10] =
        map (\<lambda>n. fl (of_int n / 100)) [10, 19, 28, 37, 46, 54, 63, 72, 81, 90]
    \<and> map (\<lambda>k. toFixed2 (spec_presence_penalty k)) [1, 2, 3, 4, 5, 6, 7, 8, 9, 10] =
        map (\<lambda>n. of_int n / 100) [10, 19, 28, 37, 46, 54, 63, 72, 81, 90]"
proof -
  have i10: "i \<le> 10" using assms by linarith
  show ?thesis
    by (intro conjI temperature_digits [OF assms(1) i10] presence_digits [OF assms(1) i10]
        sampling_mono [OF assms(1,2)] sampling_bounds [OF assms(1) i10]
        temperature_table presence_table)
qed

theorem sampling_parameters_witness:
  "(1::rat) \<le> 2 \<and> (2::rat) \<le> 7 \<and> (7::rat) \<le> 10
    \<and> mapIntensityToTemperature 2 = fl (42 / 100) \<and> mapIntensityToTemperature 7 = fl (78 / 100)
    \<and> mapIntensityToPresencePenalty 2 = fl (19 / 100) \<and> mapIntensityToPresencePenalty 7 = fl (63 / 100)
    \<and> mapIntensityToTemperature 2 \<le> mapIntensityToTemperature 7
    \<and> mapIntensityToPresencePenalty 2 \<le> mapIntensityToPresencePenalty 7
    \<and> fl (35 / 100) \<le> mapIntensityToTemperature 2 \<and> mapIntensityToTemperature 2 \<le> 1
    \<and> fl (1 / 10) \<le> mapIntensityToPresencePenalty 2 \<and> mapIntensityToPresencePenalty 2 \<le> fl (9 / 10)"
proof -
  have h: "(1::rat) \<le> 2" "(2::rat) \<le> 7" "(7::rat) \<le> 10" by simp_all
  note inst = sampling_parameters [OF h]
  have t: "map mapIntensityToTemperature [1, 2, 3, 4, 5, 6, 7, 8, 9, 10] =
        map (\<lambda>n. fl (of_int n / 100)) [35, 42, 49, 57, 64, 71, 78, 86, 93, 100]"
    and p: "map mapIntensityToPresencePenalty [1, 2, 3, 4, 5, 6, 7, 8, 9, 10] =
        map (\<lambda>n. fl (of_int n / 100)) [10, 19, 28, 37, 46, 54, 63, 72, 81, 90]"
    using inst by blast+
  have v: "mapIntensityToTemperature 2 = fl (42 / 100)" "mapIntensityToTemperature 7 = fl (78 / 100)"
    "mapIntensityToPresencePenalty 2 = fl (19 / 100)" "mapIntensityToPresencePenalty 7 = fl (63 / 100)"
    using t p by simp_all
  have m: "mapIntensityToTemperature 2 \<le> mapIntensityToTemperature 7"
    "mapIntensityToPresencePenalty 2 \<le> mapIntensityToPresencePenalty 7"
    "fl (35 / 100) \<le> mapIntensityToTemperature 2" "mapIntensityToTemperature 2 \<le> 1"
    "fl (1 / 10) \<le> mapIntensityToPresencePenalty 2" "mapIntensityToPresencePenalty 2 \<le> fl (9 / 10)"
    using inst by blast+
  show ?thesis by (intro conjI h v m)
qed

text \<open>
  C3, as stated, fails, because the formulas are evaluated in double arithmetic. The
  intensity \<open>6062537959921821 / 2^52\<close> (the double \<open>1.346153846153846\<close>) lies in \<open>[1, 10]\<close>;
  the formula's exact value there is below \<open>0.375\<close> and rounds to \<open>0.37\<close>, while the
  computed temperature is \<open>0.38\<close>, more than \<open>1/200\<close> away from the formula. At the
  intensity \<open>167 / 32\<close> the formula's value is \<open>0.475\<close>, which rounds to \<open>0.48\<close> (half up
  and half to even alike), and the computed presence penalty is \<open>0.47\<close>; at \<open>257 / 32\<close> the
  formula's value is \<open>0.725\<close> and the computed presence penalty is \<open>0.72\<close>.
\<close>

theorem sampling_rounding_counterexample:
  "fl (6062537959921821 / 4503599627370496) = 6062537959921821 / 4503599627370496
   \<and> 1 \<le> (6062537959921821 / 4503599627370496 :: rat)
   \<and> (6062537959921821 / 4503599627370496 :: rat) \<le> 10
   \<and> mapIntensityToTemperature (6062537959921821 / 4503599627370496) = fl (38 / 100)
   \<and> toFixed2 (spec_temperature (6062537959921821 / 4503599627370496)) = 37 / 100
   \<and> 1 / 200 < \<bar>38 / 100 - spec_temperature (6062537959921821 / 4503599627370496)\<bar>
   \<and> fl (38 / 100) \<noteq> fl (37 / 100)
   \<and> fl (167 / 32) = 167 / 32
   \<and> mapIntensityToPresencePenalty (167 / 32) = fl (47 / 100)
   \<and> spec_presence_penalty (167 / 32) = 475 / 1000
   \<and> toFixed2 (spec_presence_penalty (167 / 32)) = 48 / 100
   \<and> fl (47 / 100) \<noteq> fl (48 / 100)
   \<and> fl (257 / 32) = 257 / 32
   \<and> mapIntensityToPresencePenalty (257 / 32) = fl (72 / 100)
   \<and> spec_presence_penalty (257 / 32) = 725 / 1000
   \<and> toFixed2 (spec_presence_penalty (257 / 32)) = 73 / 100
   \<and> fl (72 / 100) \<noteq> fl (73 / 100)"
proof -
  have a: "fl (6062537959921821 / 4503599627370496) = 6062537959921821 / 4503599627370496"
    "fl (167 / 32) = 167 / 32" "fl (257 / 32) = 257 / 32"
    by (simp_all add: fl_values)
  have b: "mapIntensityToTemperature (6062537959921821 / 4503599627370496) = fl (38 / 100)"
    "mapIntensityToPresencePenalty (167 / 32) = fl (47 / 100)"
    "mapIntensityToPresencePenalty (257 / 32) = fl (72 / 100)"
    by (simp_all add: sampling_eval)
  have c: "toFixed2 (spec_temperature (6062537959921821 / 4503599627370496)) = 37 / 100"
    "1 / 200 < \<bar>38 / 100 - spec_temperature (6062537959921821 / 4503599627370496)\<bar>"
    "spec_presence_penalty (167 / 32) = 475 / 1000"
    "toFixed2 (spec_presence_penalty (167 / 32)) = 48 / 100"
    "spec_presence_penalty (257 / 32) = 725 / 1000"
    "toFixed2 (spec_presence_penalty (257 / 32)) = 73 / 100"
    by (simp_all add: spec_temperature_def spec_presence_penalty_def toFixed2_def floor_rat_numeral)
  have d: "fl (38 / 100) \<noteq> fl (37 / 100)" "fl (47 / 100) \<noteq> fl (48 / 100)"
    "fl (72 / 100) \<noteq> fl (73 / 100)"
    by (simp_all add: fl_values)
  show ?thesis by (intro conjI a b c d) simp_all
qed
section \<open>The reply extractor: proofs\<close>

subsection \<open>Evaluation on concrete texts\<close>

lemmas parse_value_numeral = parse_value.simps(2)[where n="pred_numeral k", folded numeral_eq_Suc] for k
lemmas parse_elements_numeral = parse_elements.simps(2)[where n="pred_numeral k", folded numeral_eq_Suc] for k
lemmas parse_members_numeral = parse_members.simps(2)[where n="pred_numeral k", folded numeral_eq_Suc] for k

lemmas json_eval =
  parse_value_numeral parse_elements_numeral parse_members_numeral ascii_def JSON_parse_def
  skip_ws_def json_ws_def parse_number_def number_int_def number_frac_def number_exp_def
  is_digit_def escape_char_def hex_val_def

lemmas extractor_eval =
  collectReplies_def sanitizeContent_def match_think_def ci_prefix_def canon_def is_word_def
  trim_def is_ws_def tryParseJsonArray_def extractJsonArrayFromText_def indexOf_def
  lastIndexOf_def fallbackSplit_def candidate_lines_def denylisted_def strip_markers_def
  is_marker_def forbiddenPatterns_def forbiddenKeywords_def disallowedStarts_def
  pat_think_open_def pat_think_close_def pat_label_def pat_then_def isLikelyReply_def
  is_punct_def is_cjk_def Let_def

subsection \<open>The strategies and their order\<close>

lemma tryParseJsonArray_Nil: "tryParseJsonArray [] = []"
  by (simp add: tryParseJsonArray_def)

lemma extract_located:
  assumes "extractJsonArrayFromText s = Some e"
  shows "\<exists>pre post. s = pre @ e @ post \<and> 91 \<notin> set pre \<and> 93 \<notin> set post \<and> hd e = 91 \<and> last e = 93"
proof -
  define start where "start = length (takeWhile (\<lambda>x. x \<noteq> 91) s)"
  define t where "t = takeWhile (\<lambda>x. x \<noteq> 93) (rev s)"
  define en where "en = length s - 1 - length t"
  from assms have in1: "91 \<in> set s" and in2: "93 \<in> set s"
    by (auto simp: extractJsonArrayFromText_def indexOf_def lastIndexOf_def split: if_splits)
  from assms in1 in2 have lt: "start < en" and e: "e = take (en + 1 - start) (drop start s)"
    by (auto simp: extractJsonArrayFromText_def indexOf_def lastIndexOf_def start_def en_def t_def split: if_splits)
  have dnon: "dropWhile (\<lambda>x. x \<noteq> 93) (rev s) \<noteq> []" using in2 by (simp add: dropWhile_eq_Nil_conv)
  have revs: "rev s = t @ dropWhile (\<lambda>x. x \<noteq> 93) (rev s)" by (simp add: t_def)
  have lent: "length t < length s"
    using dnon arg_cong[OF revs, of length] by (cases "dropWhile (\<lambda>x. x \<noteq> 93) (rev s)") auto
  then have en1: "en + 1 = length s - length t" by (simp add: en_def)
  have s_eq: "s = rev (dropWhile (\<lambda>x. x \<noteq> 93) (rev s)) @ rev t"
    using arg_cong[OF revs, of rev] by simp
  have len_front: "length (rev (dropWhile (\<lambda>x. x \<noteq> 93) (rev s))) = en + 1"
    using arg_cong[OF s_eq, of length] en1 by simp
  have take_en: "take (en + 1) s = rev (dropWhile (\<lambda>x. x \<noteq> 93) (rev s))"
    using s_eq len_front by (metis append_eq_conv_conj)
  have drop_en: "drop (en + 1) s = rev t"
    using s_eq len_front by (metis append_eq_conv_conj)
  have post: "93 \<notin> set (rev t)" unfolding t_def using set_takeWhileD by fastforce
  have pre_eq: "take start s = takeWhile (\<lambda>x. x \<noteq> 91) s"
    unfolding start_def by (metis append_eq_conv_conj takeWhile_dropWhile_id)
  have pre: "91 \<notin> set (take start s)" unfolding pre_eq using set_takeWhileD by fastforce
  have e2: "e = drop start (take (en + 1) s)" unfolding e by (simp add: drop_take)
  have split3: "s = take start s @ e @ drop (en + 1) s"
  proof -
    have "take (en + 1) s = take start (take (en + 1) s) @ drop start (take (en + 1) s)" by (rule append_take_drop_id[symmetric])
    also have "take start (take (en + 1) s) = take start s" using lt by (simp add: min_def)
    finally have "take (en + 1) s = take start s @ e" unfolding e2 .
    then show ?thesis by (metis append_take_drop_id append_assoc)
  qed
  have drop_start: "drop start s = dropWhile (\<lambda>x. x \<noteq> 91) s"
    unfolding start_def by (metis append_eq_conv_conj takeWhile_dropWhile_id)
  have enlen: "en < length s" using lent by (simp add: en_def)
  have e_ne: "e \<noteq> []" unfolding e using lt enlen by simp
  have hd_e: "hd e = 91"
  proof -
    have "hd e = hd (drop start s)" unfolding e using lt by (simp add: hd_take)
    also have "\<dots> = 91" unfolding drop_start using in1 hd_dropWhile[of "\<lambda>x. x \<noteq> 91" s] by (simp add: dropWhile_eq_Nil_conv)
    finally show ?thesis .
  qed
  have last_e: "last e = 93"
  proof -
    have "start < length (take (en + 1) s)" using lt enlen by simp
    then have "last e = last (take (en + 1) s)" unfolding e2 by (rule last_drop)
    also have "\<dots> = hd (dropWhile (\<lambda>x. x \<noteq> 93) (rev s))" unfolding take_en using dnon by (simp add: last_rev)
    also have "\<dots> = 93" using dnon hd_dropWhile[of "\<lambda>x. x \<noteq> 93" "rev s"] by simp
    finally show ?thesis .
  qed
  show ?thesis using split3 pre post[folded drop_en] hd_e last_e by blast
qed


lemma collectReplies_first_nonempty:
  "collectReplies raw =
     (case filter (\<lambda>r. r \<noteq> [])
        [tryParseJsonArray (sanitizeContent raw),
         (case extractJsonArrayFromText (sanitizeContent raw) of
            None \<Rightarrow> [] | Some e \<Rightarrow> tryParseJsonArray e),
         fallbackSplit (sanitizeContent raw)] of
        [] \<Rightarrow> []
      | r # _ \<Rightarrow> r)"
  by (cases "extractJsonArrayFromText (sanitizeContent raw)")
     (auto simp: collectReplies_def Let_def tryParseJsonArray_Nil)

lemma collectReplies_strict_example:
  "collectReplies (ascii ''[\"A\",\"B\",\"C\"]'') = [ascii ''A'', ascii ''B'', ascii ''C'']"
  by (simp add: json_eval extractor_eval)

lemma collectReplies_embedded_example:
  "collectReplies (ascii ''Here it is: [\"A\",\"B\"] thanks'') = [ascii ''A'', ascii ''B'']"
  by (simp add: json_eval extractor_eval)

lemma collectReplies_lines_example:
  "collectReplies
     [49, 46, 32, 20320, 34892, 20320, 19978, 21834, 65281, 10,
      50, 46, 32, 21035, 20809, 35828, 19981, 32451, 12290, 10,
      22330, 26223, 65306, 25105, 38656, 35201, 19977, 26465, 22238, 22797] =
   [[20320, 34892, 20320, 19978, 21834, 65281], [21035, 20809, 35828, 19981, 32451, 12290]]"
  by (simp add: json_eval extractor_eval)

text \<open>
  C4: the extractor tries the strict JSON array, then the array between the first
  \<open>[\<close> and the last \<open>]\<close> of the sanitized text, then the line split, and the first
  non-empty result is returned. On \<open>["A","B","C"]\<close> it returns the three strings, on
  \<open>Here it is: ["A","B"] thanks\<close> the two strings, and on the three free lines of the
  specification (\<open>1. ...\<close>, \<open>2. ...\<close> and the line that starts with the scene label) the
  first two lines without their markers.
\<close>

theorem collectReplies_strategies:
  "collectReplies raw =
     (case filter (\<lambda>r. r \<noteq> [])
        [tryParseJsonArray (sanitizeContent raw),
         (case extractJsonArrayFromText (sanitizeContent raw) of
            None \<Rightarrow> [] | Some e \<Rightarrow> tryParseJsonArray e),
         fallbackSplit (sanitizeContent raw)] of
        [] \<Rightarrow> []
      | r # _ \<Rightarrow> r)
   \<and> (\<forall>e. extractJsonArrayFromText (sanitizeContent raw) = Some e \<longrightarrow>
          (\<exists>pre post. sanitizeContent raw = pre @ e @ post \<and> 91 \<notin> set pre \<and> 93 \<notin> set post
             \<and> hd e = 91 \<and> last e = 93))
   \<and> collectReplies (ascii ''[\"A\",\"B\",\"C\"]'') = [ascii ''A'', ascii ''B'', ascii ''C'']
   \<and> collectReplies (ascii ''Here it is: [\"A\",\"B\"] thanks'') = [ascii ''A'', ascii ''B'']
   \<and> collectReplies
        [49, 46, 32, 20320, 34892, 20320, 19978, 21834, 65281, 10,
         50, 46, 32, 21035, 20809, 35828, 19981, 32451, 12290, 10,
         22330, 26223, 65306, 25105, 38656, 35201, 19977, 26465, 22238, 22797] =
      [[20320, 34892, 20320, 19978, 21834, 65281], [21035, 20809, 35828, 19981, 32451, 12290]]"
  using collectReplies_first_nonempty [of raw] extract_located [of "sanitizeContent raw"]
    collectReplies_strict_example collectReplies_embedded_example collectReplies_lines_example
  by blast

theorem collectReplies_strategies_witness:
  "extractJsonArrayFromText (sanitizeContent (ascii ''Here it is: [\"A\",\"B\"] thanks'')) =
     Some (ascii ''[\"A\",\"B\"]'')
   \<and> (\<exists>pre post. sanitizeContent (ascii ''Here it is: [\"A\",\"B\"] thanks'') =
          pre @ ascii ''[\"A\",\"B\"]'' @ post \<and> 91 \<notin> set pre \<and> 93 \<notin> set post)
   \<and> collectReplies (ascii ''Here it is: [\"A\",\"B\"] thanks'') = [ascii ''A'', ascii ''B'']"
proof -
  have a: "extractJsonArrayFromText (sanitizeContent (ascii ''Here it is: [\"A\",\"B\"] thanks'')) =
      Some (ascii ''[\"A\",\"B\"]'')"
    by (simp add: json_eval extractor_eval)
  show ?thesis
    using a collectReplies_strategies [of "ascii ''Here it is: [\"A\",\"B\"] thanks''"] by blast
qed

subsection \<open>The line heuristic\<close>

lemma fallbackSplit_candidates: "fallbackSplit raw = take 3 (filter isLikelyReply (candidate_lines raw))"
proof (cases "raw = []")
  case True
  then show ?thesis by (simp add: fallbackSplit_def candidate_lines_def strip_markers_def trim_def)
next
  case False
  then show ?thesis
    by (simp add: fallbackSplit_def candidate_lines_def denylisted_def)
qed

lemma isLikelyReply_iff:
  "isLikelyReply line \<longleftrightarrow>
     6 \<le> length line \<and> (\<forall>pre\<in>set disallowedStarts. \<not> prefix pre line) \<and>
     ((\<exists>c\<in>set line. is_punct c) \<or> ((\<exists>c\<in>set line. is_cjk c) \<and> 8 \<le> length line))"
  by (auto simp: isLikelyReply_def list_ex_iff)

text \<open>
  C5 (amended): after marker stripping and denylist filtering, a line is kept if and
  only if it has at least 6 code units, does not start with one of the five disallowed
  words, and either contains sentence punctuation or has at least 8 code units and an
  ideograph of U+4E00..U+9FA5; the first 3 kept lines are returned.
\<close>

theorem fallbackSplit_keeps:
  "(isLikelyReply line \<longleftrightarrow>
     6 \<le> length line \<and> (\<forall>pre\<in>set disallowedStarts. \<not> prefix pre line) \<and>
     ((\<exists>c\<in>set line. is_punct c) \<or> ((\<exists>c\<in>set line. is_cjk c) \<and> 8 \<le> length line)))
   \<and> fallbackSplit raw = take 3 (filter isLikelyReply (candidate_lines raw))
   \<and> length (fallbackSplit raw) \<le> 3"
  using isLikelyReply_iff [of line] fallbackSplit_candidates [of raw] by simp

theorem fallbackSplit_keeps_witness:
  "isLikelyReply [20320, 34892, 20320, 19978, 21834, 65281]
   \<and> 6 \<le> length [20320, 34892, 20320, 19978, 21834, 65281 :: nat]
   \<and> (\<exists>c\<in>set [20320, 34892, 20320, 19978, 21834, 65281]. is_punct c)
   \<and> fallbackSplit (ascii ''OK then, fine!'') = take 3 (filter isLikelyReply (candidate_lines (ascii ''OK then, fine!'')))
   \<and> fallbackSplit (ascii ''OK then, fine!'') = [ascii ''OK then, fine!'']"
proof -
  have a: "fallbackSplit (ascii ''OK then, fine!'') = [ascii ''OK then, fine!'']"
    by (simp add: json_eval extractor_eval)
  have b: "\<exists>c\<in>set [20320, 34892, 20320, 19978, 21834, 65281]. is_punct c"
    by (simp add: is_punct_def)
  have c: "\<forall>pre\<in>set disallowedStarts. \<not> prefix pre [20320, 34892, 20320, 19978, 21834, 65281]"
    by (simp add: disallowedStarts_def)
  show ?thesis
    using a b c fallbackSplit_keeps [of "[20320, 34892, 20320, 19978, 21834, 65281]" "ascii ''OK then, fine!''"]
    by simp
qed

text \<open>
  C5, as stated, fails: \<open>OK!\<close> contains sentence punctuation and passes the denylist,
  but has fewer than 6 code units and is dropped; a 9-unit line that ends in U+FF01 but
  starts with the disallowed word U+8BF4 U+660E is dropped as well.
\<close>

theorem fallbackSplit_punctuation_counterexample:
  "list_ex is_punct (ascii ''OK!'')
   \<and> candidate_lines (ascii ''OK!'') = [ascii ''OK!'']
   \<and> fallbackSplit (ascii ''OK!'') = []
   \<and> list_ex is_punct [35828, 26126, 19968, 19979, 20320, 30340, 38382, 39064, 65281]
   \<and> candidate_lines [35828, 26126, 19968, 19979, 20320, 30340, 38382, 39064, 65281] =
       [[35828, 26126, 19968, 19979, 20320, 30340, 38382, 39064, 65281]]
   \<and> fallbackSplit [35828, 26126, 19968, 19979, 20320, 30340, 38382, 39064, 65281] = []"
  by (simp add: json_eval extractor_eval)


subsection \<open>Sanitizing\<close>


lemma canon_60: "canon c = 60 \<longleftrightarrow> c = 60"
  by (auto simp: canon_def)

lemma canon_open_tag: "map canon (ascii ''<think'') = [60, 84, 72, 73, 78, 75]"
  by (simp add: ascii_def canon_def)

lemma canon_close_tag: "map canon (ascii ''</think>'') = [60, 47, 84, 72, 73, 78, 75, 62]"
  by (simp add: ascii_def canon_def)

lemma ci_prefix_open_hd: "ci_prefix (ascii ''<think'') (c # cs) \<Longrightarrow> c = 60"
  unfolding ci_prefix_def canon_open_tag by (simp add: canon_60)

lemma ci_prefix_close_hd: "ci_prefix (ascii ''</think>'') (c # cs) \<Longrightarrow> c = 60"
  unfolding ci_prefix_def canon_close_tag by (simp add: canon_60)

lemma match_think_hd: "c \<noteq> 60 \<Longrightarrow> match_think (c # cs) = None"
  using ci_prefix_open_hd [of c cs] by (auto simp: match_think_def)

lemma strip_think_skip: "strip_think n s = strip_think 0 (drop n s)"
proof (induction s arbitrary: n)
  case Nil
  then show ?case by simp
next
  case (Cons c cs)
  show ?case
  proof (cases n)
    case 0
    then show ?thesis by simp
  next
    case (Suc m)
    then show ?thesis using Cons.IH [of m] by simp
  qed
qed

lemma strip_think_pre: "60 \<notin> set pre \<Longrightarrow> strip_think 0 (pre @ s) = pre @ strip_think 0 s"
  by (induction pre) (simp_all add: match_think_hd)

lemma strip_think_match:
  assumes "match_think s = Some len"
  shows "strip_think 0 s = strip_think 0 (drop len s)"
proof (cases s)
  case Nil
  then show ?thesis by simp
next
  case (Cons c cs)
  have pos: "0 < len" using assms by (auto simp: match_think_def Let_def split: if_splits list.splits option.splits)
  have "strip_think 0 s = strip_think (len - 1) cs" using assms Cons by simp
  also have "\<dots> = strip_think 0 (drop (len - 1) cs)" by (rule strip_think_skip)
  also have "drop (len - 1) cs = drop len s" using pos Cons by (cases len) simp_all
  finally show ?thesis .
qed

lemma ci_prefix_append:
  "map canon tag = map canon p \<Longrightarrow> ci_prefix p (tag @ rest)"
  by (simp add: ci_prefix_def)


lemma takeWhile_stop: "c \<notin> set xs \<Longrightarrow> takeWhile (\<lambda>x. x \<noteq> c) (xs @ c # ys) = xs"
  by (induction xs) auto

lemma find_close_suffix: "find_close (a @ b) = None \<Longrightarrow> find_close b = None"
  by (induction a) (auto split: if_splits)

lemma match_think_needs_close:
  assumes "find_close s = None" shows "match_think s = None"
proof (rule ccontr)
  assume "match_think s \<noteq> None"
  then obtain len where m: "match_think s = Some len" by blast
  define n where "n = 6 + length (takeWhile (\<lambda>x. x \<noteq> 62) (drop 6 s))"
  from m obtain x body k where d: "drop n s = x # body" and f: "find_close body = Some k"
    unfolding match_think_def Let_def n_def
    by (simp split: if_splits list.splits option.splits)
  have "s = (take n s @ [x]) @ body" using append_take_drop_id [of n s] d by simp
  then have "find_close body = None" using assms find_close_suffix by metis
  then show False using f by simp
qed

lemma strip_think_unterminated: "find_close s = None \<Longrightarrow> strip_think 0 s = s"
proof (induction s)
  case Nil
  then show ?case by simp
next
  case (Cons c cs)
  then have "find_close cs = None" by (auto split: if_splits)
  then show ?case using Cons match_think_needs_close [OF Cons.prems] by simp
qed

lemma collectReplies_via_sanitize:
  "sanitizeContent raw = sanitizeContent raw' \<Longrightarrow> collectReplies raw = collectReplies raw'"
  by (simp add: collectReplies_def)



lemma sanitizeContent_unterminated: "find_close raw = None \<Longrightarrow> sanitizeContent raw = trim raw"
  by (simp add: sanitizeContent_def strip_think_unterminated trim_def)

lemma ci_prefix_close_Nil: "\<not> ci_prefix (ascii ''</think>'') []"
  by (simp add: ci_prefix_def ascii_def)

lemma find_close_iff:
  "find_close s = Some k \<longleftrightarrow>
     ci_prefix (ascii ''</think>'') (drop k s) \<and>
     (\<forall>j<k. \<not> ci_prefix (ascii ''</think>'') (drop j s))"
proof (induction s arbitrary: k)
  case Nil
  then show ?case by (simp add: ci_prefix_close_Nil)
next
  case (Cons c cs)
  show ?case
  proof (cases "ci_prefix (ascii ''</think>'') (c # cs)")
    case True
    then show ?thesis by (cases k) auto
  next
    case False
    show ?thesis
    proof (cases k)
      case 0
      then show ?thesis using False by simp
    next
      case (Suc k')
      then show ?thesis using False Cons.IH [of k'] by (simp add: All_less_Suc2)
    qed
  qed
qed

lemma match_think_complete:
  assumes otag: "map canon otag = map canon (ascii ''<think'')"
    and ctag: "map canon ctag = map canon (ascii ''</think>'')"
    and attrs: "62 \<notin> set attrs" "attrs = [] \<or> \<not> is_word (hd attrs)"
    and body: "\<forall>j<length body. \<not> ci_prefix (ascii ''</think>'') (drop j (body @ ctag @ post))"
  shows "match_think (otag @ attrs @ [62] @ body @ ctag @ post) =
         Some (length (otag @ attrs @ [62] @ body @ ctag))"
proof -
  let ?s = "otag @ attrs @ [62] @ body @ ctag @ post"
  have len_o: "length otag = 6" using arg_cong [OF otag, of length] by (simp add: ascii_def)
  have len_c: "length ctag = 8" using arg_cong [OF ctag, of length] by (simp add: ascii_def)
  have pre: "ci_prefix (ascii ''<think'') ?s" using otag by (rule ci_prefix_append)
  have d6: "drop 6 ?s = attrs @ [62] @ body @ ctag @ post" using len_o by simp
  have tw: "takeWhile (\<lambda>x. x \<noteq> 62) (attrs @ [62] @ body @ ctag @ post) = attrs"
    using takeWhile_stop [OF attrs(1)] by simp
  have nw: "\<not> is_word (hd (attrs @ [62] @ body @ ctag @ post))"
    using attrs(2) by (cases attrs) (auto simp: is_word_def)
  have dn: "drop (6 + length attrs) ?s = 62 # body @ ctag @ post" using len_o by simp
  have "ci_prefix (ascii ''</think>'') (drop (length body) (body @ ctag @ post))"
    using ci_prefix_append [OF ctag, of post] by simp
  then have fc: "find_close (body @ ctag @ post) = Some (length body)"
    using body by (simp only: find_close_iff simp_thms)
  obtain b r where br: "attrs @ [62] @ body @ ctag @ post = b # r" by (cases attrs) auto
  have nwb: "\<not> is_word b" using nw br by simp
  show ?thesis
    apply (simp only: match_think_def pre if_True d6 Let_def)
    apply (simp only: tw dn)
    apply (simp only: br list.case nwb if_False fc option.case)
    apply (simp add: len_o len_c)
    done
qed

lemma ci_prefix_take:
  "ci_prefix p s \<Longrightarrow> map canon (take (length p) s) = map canon p"
  unfolding ci_prefix_def prefix_def by (auto simp: take_map [symmetric] simp del: take_map)

lemma takeWhile_rest_hd:
  "drop (length (takeWhile (\<lambda>x. x \<noteq> c) xs)) xs = y # ys \<Longrightarrow> y = c"
  using hd_dropWhile [of "\<lambda>x. x \<noteq> c" xs] by (simp add: dropWhile_eq_drop [symmetric])

lemma match_think_shape:
  assumes m: "match_think s = Some len"
  shows "\<exists>otag attrs body ctag post.
           s = otag @ attrs @ [62] @ body @ ctag @ post \<and>
           len = length (otag @ attrs @ [62] @ body @ ctag) \<and>
           map canon otag = map canon (ascii ''<think'') \<and>
           map canon ctag = map canon (ascii ''</think>'') \<and>
           62 \<notin> set attrs \<and> (attrs = [] \<or> \<not> is_word (hd attrs)) \<and>
           (\<forall>j<length body. \<not> ci_prefix (ascii ''</think>'') (drop j (body @ ctag @ post)))"
proof -
  define attrs where "attrs = takeWhile (\<lambda>x. x \<noteq> 62) (drop 6 s)"
  from m have pre: "ci_prefix (ascii ''<think'') s"
    unfolding match_think_def by (simp split: if_splits)
  have m1: "(case drop 6 s of
               [] \<Rightarrow> None
             | b # _ \<Rightarrow>
                 if is_word b then None
                 else (case drop (6 + length attrs) s of
                         [] \<Rightarrow> None
                       | _ # body \<Rightarrow>
                           (case find_close body of
                              None \<Rightarrow> None
                            | Some k \<Rightarrow> Some (6 + length attrs + 1 + k + 8)))) = Some len"
    using m pre unfolding match_think_def Let_def attrs_def by simp
  from m1 obtain b r where d6: "drop 6 s = b # r" and nw: "\<not> is_word b"
    and m2: "(case drop (6 + length attrs) s of
                [] \<Rightarrow> None
              | _ # body \<Rightarrow>
                  (case find_close body of
                     None \<Rightarrow> None
                   | Some k \<Rightarrow> Some (6 + length attrs + 1 + k + 8))) = Some len"
    by (cases "drop 6 s") (auto split: if_splits)
  from m2 obtain x rest where dn: "drop (6 + length attrs) s = x # rest"
    and m3: "(case find_close rest of
                None \<Rightarrow> None
              | Some k \<Rightarrow> Some (6 + length attrs + 1 + k + 8)) = Some len"
    by (cases "drop (6 + length attrs) s") auto
  from m3 obtain k where fc: "find_close rest = Some k" and len: "len = 6 + length attrs + 1 + k + 8"
    by (cases "find_close rest") auto
  have x: "x = 62"
    using dn takeWhile_rest_hd [of 62 "drop 6 s" x rest] by (simp add: attrs_def add.commute)
  have l6: "6 \<le> length s" using d6 by (cases "6 \<le> length s") simp_all
  have lo: "length (ascii ''<think'') = 6" by (simp add: ascii_def)
  have lc: "length (ascii ''</think>'') = 8" by (simp add: ascii_def)
  have o: "map canon (take 6 s) = map canon (ascii ''<think'')"
    using ci_prefix_take [OF pre] unfolding lo .
  have a62: "62 \<notin> set attrs" unfolding attrs_def by (auto dest: set_takeWhileD)
  have ahd: "attrs = [] \<or> \<not> is_word (hd attrs)"
    unfolding attrs_def using d6 nw by (simp)
  from fc have c1: "ci_prefix (ascii ''</think>'') (drop k rest)"
    and c2: "\<forall>j<k. \<not> ci_prefix (ascii ''</think>'') (drop j rest)"
    unfolding find_close_iff by blast+
  have c: "map canon (take 8 (drop k rest)) = map canon (ascii ''</think>'')"
    using ci_prefix_take [OF c1] unfolding lc .
  have l8: "length (take 8 (drop k rest)) = 8"
    using arg_cong [OF c, of length] by (simp add: ascii_def)
  have kl: "k \<le> length rest" using c1 by (cases "k \<le> length rest") (simp_all add: ci_prefix_close_Nil)
  have s2: "drop 6 s = attrs @ drop (length attrs) (drop 6 s)"
    unfolding attrs_def by (metis takeWhile_dropWhile_id dropWhile_eq_drop)
  have s3: "drop (length attrs) (drop 6 s) = 62 # rest" using dn x by (simp add: add.commute)
  have d: "drop 6 s = attrs @ [62] @ rest"
    by (subst s2) (simp only: s3 append_Cons append_Nil)
  have "take 6 s @ attrs @ [62] @ take k rest @ take 8 (drop k rest) @ drop 8 (drop k rest) =
        take 6 s @ attrs @ [62] @ rest"
    by (simp only: append_take_drop_id)
  also have "\<dots> = take 6 s @ drop 6 s" by (simp only: d)
  also have "\<dots> = s" by (rule append_take_drop_id)
  finally have dec: "s = take 6 s @ attrs @ [62] @ take k rest @ take 8 (drop k rest) @ drop 8 (drop k rest)"
    by (rule sym)
  have lenk: "length (take k rest) = k" using kl by simp
  have first: "\<forall>j<length (take k rest).
          \<not> ci_prefix (ascii ''</think>'') (drop j (take k rest @ take 8 (drop k rest) @ drop 8 (drop k rest)))"
    using c2 by (simp only: lenk append_take_drop_id)
  have lentot: "len = length (take 6 s @ attrs @ [62] @ take k rest @ take 8 (drop k rest))"
    using len l6 lenk l8 by simp
  show ?thesis
    using dec lentot o c a62 ahd first by blast
qed

lemma strip_think_keep:
  "match_think (c # cs) = None \<Longrightarrow> strip_think 0 (c # cs) = c # strip_think 0 cs"
  by simp

lemma strip_think_pre_clear:
  "\<forall>k<length pre. match_think (drop k (pre @ s)) = None \<Longrightarrow>
   strip_think 0 (pre @ s) = pre @ strip_think 0 s"
proof (induction pre)
  case Nil
  then show ?case by simp
next
  case (Cons p pre)
  from Cons.prems have h: "match_think (p # pre @ s) = None"
    and t: "\<forall>k<length pre. match_think (drop k (pre @ s)) = None"
    by (simp_all add: All_less_Suc2)
  show ?case using h Cons.IH [OF t] by simp
qed

lemma sanitizeContent_complete:
  assumes "\<forall>k<length pre. match_think (drop k (pre @ otag @ attrs @ [62] @ body @ ctag @ post)) = None"
    and "map canon otag = map canon (ascii ''<think'')"
    and "map canon ctag = map canon (ascii ''</think>'')"
    and "62 \<notin> set attrs" and "attrs = [] \<or> \<not> is_word (hd attrs)"
    and "\<forall>j<length body. \<not> ci_prefix (ascii ''</think>'') (drop j (body @ ctag @ post))"
  shows "sanitizeContent (pre @ otag @ attrs @ [62] @ body @ ctag @ post) =
         trim (pre @ strip_think 0 post)"
proof -
  have "strip_think 0 (otag @ attrs @ [62] @ body @ ctag @ post) =
        strip_think 0 (drop (length (otag @ attrs @ [62] @ body @ ctag)) (otag @ attrs @ [62] @ body @ ctag @ post))"
    by (rule strip_think_match) (rule match_think_complete [OF assms(2-6)])
  also have "\<dots> = strip_think 0 post" by simp
  finally have "strip_think 0 (pre @ otag @ attrs @ [62] @ body @ ctag @ post) = pre @ strip_think 0 post"
    using strip_think_pre_clear [OF assms(1)] by simp
  then show ?thesis by (simp add: sanitizeContent_def)
qed


lemma sanitizeContent_strip: "sanitizeContent raw = trim (strip_think 0 raw)"
  by (simp add: sanitizeContent_def trim_def)

lemma match_think_iff:
  "match_think s = Some len \<longleftrightarrow>
     (\<exists>otg ats bdy ctg pst.
        s = otg @ ats @ [62] @ bdy @ ctg @ pst \<and>
        len = length (otg @ ats @ [62] @ bdy @ ctg) \<and>
        map canon otg = map canon (ascii ''<think'') \<and>
        map canon ctg = map canon (ascii ''</think>'') \<and>
        62 \<notin> set ats \<and> (ats = [] \<or> \<not> is_word (hd ats)) \<and>
        (\<forall>j<length bdy. \<not> ci_prefix (ascii ''</think>'') (drop j (bdy @ ctg @ pst))))"
proof (rule iffI)
  assume "match_think s = Some len"
  then show "\<exists>otg ats bdy ctg pst.
        s = otg @ ats @ [62] @ bdy @ ctg @ pst \<and>
        len = length (otg @ ats @ [62] @ bdy @ ctg) \<and>
        map canon otg = map canon (ascii ''<think'') \<and>
        map canon ctg = map canon (ascii ''</think>'') \<and>
        62 \<notin> set ats \<and> (ats = [] \<or> \<not> is_word (hd ats)) \<and>
        (\<forall>j<length bdy. \<not> ci_prefix (ascii ''</think>'') (drop j (bdy @ ctg @ pst)))"
    by (rule match_think_shape)
next
  assume "\<exists>otg ats bdy ctg pst.
        s = otg @ ats @ [62] @ bdy @ ctg @ pst \<and>
        len = length (otg @ ats @ [62] @ bdy @ ctg) \<and>
        map canon otg = map canon (ascii ''<think'') \<and>
        map canon ctg = map canon (ascii ''</think>'') \<and>
        62 \<notin> set ats \<and> (ats = [] \<or> \<not> is_word (hd ats)) \<and>
        (\<forall>j<length bdy. \<not> ci_prefix (ascii ''</think>'') (drop j (bdy @ ctg @ pst)))"
  then obtain otg ats bdy ctg pst where
    s: "s = otg @ ats @ [62] @ bdy @ ctg @ pst" and
    len: "len = length (otg @ ats @ [62] @ bdy @ ctg)" and
    h: "map canon otg = map canon (ascii ''<think'')"
       "map canon ctg = map canon (ascii ''</think>'')"
       "62 \<notin> set ats" "ats = [] \<or> \<not> is_word (hd ats)"
       "\<forall>j<length bdy. \<not> ci_prefix (ascii ''</think>'') (drop j (bdy @ ctg @ pst))"
    by (elim exE conjE)
  show "match_think s = Some len" unfolding s len by (rule match_think_complete [OF h])
qed

text \<open>
  C6 (amended): the extraction strategies see the raw text only through
  \<open>sanitizeContent\<close>, which trims what the scan \<open>strip_think\<close> leaves of the text. A complete
  block at the head of a text is \<open><think\<close> in any letter case, attributes without \<open>>\<close>
  that do not start with a word character, \<open>>\<close>, a body, and the first \<open></think>\<close> in any
  letter case behind that \<open>>\<close>; \<open>match_think\<close> finds exactly these blocks and gives their
  length. The scan deletes a complete block where it finds one and goes on behind it, and
  keeps the code unit where no complete block starts. So for every text that has a
  complete block, with no complete block starting before it, the block is deleted, the
  scan goes on behind it, and the result is trimmed. A text with no closing tag is only
  trimmed: an unterminated \<open><think>\<close> and the text behind it stay in place.
\<close>

theorem sanitizeContent_complete_blocks:
  "(sanitizeContent raw = sanitizeContent raw' \<longrightarrow> collectReplies raw = collectReplies raw')
   \<and> sanitizeContent raw = trim (strip_think 0 raw)
   \<and> (match_think s = Some len \<longleftrightarrow>
        (\<exists>otg ats bdy ctg pst.
           s = otg @ ats @ [62] @ bdy @ ctg @ pst \<and>
           len = length (otg @ ats @ [62] @ bdy @ ctg) \<and>
           map canon otg = map canon (ascii ''<think'') \<and>
           map canon ctg = map canon (ascii ''</think>'') \<and>
           62 \<notin> set ats \<and> (ats = [] \<or> \<not> is_word (hd ats)) \<and>
           (\<forall>j<length bdy. \<not> ci_prefix (ascii ''</think>'') (drop j (bdy @ ctg @ pst)))))
   \<and> (match_think s = Some len \<longrightarrow> strip_think 0 s = strip_think 0 (drop len s))
   \<and> (match_think (c # cs) = None \<longrightarrow> strip_think 0 (c # cs) = c # strip_think 0 cs)
   \<and> ((\<forall>k<length pre. match_think (drop k (pre @ otag @ attrs @ [62] @ body @ ctag @ post)) = None)
        \<and> map canon otag = map canon (ascii ''<think'')
        \<and> map canon ctag = map canon (ascii ''</think>'')
        \<and> 62 \<notin> set attrs \<and> (attrs = [] \<or> \<not> is_word (hd attrs))
        \<and> (\<forall>j<length body. \<not> ci_prefix (ascii ''</think>'') (drop j (body @ ctag @ post))) \<longrightarrow>
      sanitizeContent (pre @ otag @ attrs @ [62] @ body @ ctag @ post) =
        trim (pre @ strip_think 0 post))
   \<and> (find_close raw = None \<longrightarrow> sanitizeContent raw = trim raw)"
proof (intro conjI)
  show "sanitizeContent raw = sanitizeContent raw' \<longrightarrow> collectReplies raw = collectReplies raw'"
    by (rule impI) (rule collectReplies_via_sanitize)
  show "sanitizeContent raw = trim (strip_think 0 raw)" by (rule sanitizeContent_strip)
  show "match_think s = Some len \<longleftrightarrow>
        (\<exists>otg ats bdy ctg pst.
           s = otg @ ats @ [62] @ bdy @ ctg @ pst \<and>
           len = length (otg @ ats @ [62] @ bdy @ ctg) \<and>
           map canon otg = map canon (ascii ''<think'') \<and>
           map canon ctg = map canon (ascii ''</think>'') \<and>
           62 \<notin> set ats \<and> (ats = [] \<or> \<not> is_word (hd ats)) \<and>
           (\<forall>j<length bdy. \<not> ci_prefix (ascii ''</think>'') (drop j (bdy @ ctg @ pst))))"
    by (rule match_think_iff)
  show "match_think s = Some len \<longrightarrow> strip_think 0 s = strip_think 0 (drop len s)"
    by (rule impI) (rule strip_think_match)
  show "match_think (c # cs) = None \<longrightarrow> strip_think 0 (c # cs) = c # strip_think 0 cs"
    by (rule impI) (rule strip_think_keep)
  show "(\<forall>k<length pre. match_think (drop k (pre @ otag @ attrs @ [62] @ body @ ctag @ post)) = None)
        \<and> map canon otag = map canon (ascii ''<think'')
        \<and> map canon ctag = map canon (ascii ''</think>'')
        \<and> 62 \<notin> set attrs \<and> (attrs = [] \<or> \<not> is_word (hd attrs))
        \<and> (\<forall>j<length body. \<not> ci_prefix (ascii ''</think>'') (drop j (body @ ctag @ post))) \<longrightarrow>
      sanitizeContent (pre @ otag @ attrs @ [62] @ body @ ctag @ post) =
        trim (pre @ strip_think 0 post)"
    by (rule impI, elim conjE) (rule sanitizeContent_complete)
  show "find_close raw = None \<longrightarrow> sanitizeContent raw = trim raw"
    by (rule impI) (rule sanitizeContent_unterminated)
qed

theorem sanitizeContent_complete_blocks_witness:
  "sanitizeContent (ascii ''  A'') = sanitizeContent (ascii ''A'')
   \<and> collectReplies (ascii ''  A'') = collectReplies (ascii ''A'')
   \<and> match_think (ascii ''<THINK'' @ ascii '' a=1'' @ [62] @ ascii ''x<y'' @ ascii ''</Think>'' @ ascii '' ok'') = Some 22
   \<and> strip_think 0 (ascii ''<THINK'' @ ascii '' a=1'' @ [62] @ ascii ''x<y'' @ ascii ''</Think>'' @ ascii '' ok'') =
       strip_think 0 (ascii '' ok'')
   \<and> match_think (49 # ascii ''<2'') = None
   \<and> strip_think 0 (49 # ascii ''<2'') = 49 # strip_think 0 (ascii ''<2'')
   \<and> sanitizeContent (ascii ''1<2 '' @ ascii ''<THINK'' @ ascii '' a=1'' @ [62] @ ascii ''x<y'' @ ascii ''</Think>'' @ ascii '' ok'') =
       ascii ''1<2  ok''
   \<and> find_close (ascii ''<think>abc'') = None
   \<and> sanitizeContent (ascii ''<think>abc'') = ascii ''<think>abc''"
proof -
  let ?blk = "ascii ''<THINK'' @ ascii '' a=1'' @ [62] @ ascii ''x<y'' @ ascii ''</Think>'' @ ascii '' ok''"
  note inst = sanitizeContent_complete_blocks [of "ascii ''  A''" "ascii ''A''" ?blk 22 49 "ascii ''<2''"
      "ascii ''1<2 ''" "ascii ''<THINK''" "ascii '' a=1''" "ascii ''x<y''" "ascii ''</Think>''" "ascii '' ok''"]
  note inst2 = sanitizeContent_complete_blocks [of "ascii ''<think>abc''" "ascii ''A''" ?blk 22 49 "ascii ''<2''"
      "ascii ''1<2 ''" "ascii ''<THINK''" "ascii '' a=1''" "ascii ''x<y''" "ascii ''</Think>''" "ascii '' ok''"]
  note c1 = inst [THEN conjunct1]
  note c3 = inst [THEN conjunct2, THEN conjunct2, THEN conjunct1]
  note c4 = inst [THEN conjunct2, THEN conjunct2, THEN conjunct2, THEN conjunct1]
  note c5 = inst [THEN conjunct2, THEN conjunct2, THEN conjunct2, THEN conjunct2, THEN conjunct1]
  note c6 = inst [THEN conjunct2, THEN conjunct2, THEN conjunct2, THEN conjunct2, THEN conjunct2, THEN conjunct1]
  note c7 = inst2 [THEN conjunct2, THEN conjunct2, THEN conjunct2, THEN conjunct2, THEN conjunct2, THEN conjunct2]
  have a: "sanitizeContent (ascii ''  A'') = sanitizeContent (ascii ''A'')"
    by (simp add: extractor_eval ascii_def)
  have tags: "map canon (ascii ''<THINK'') = map canon (ascii ''<think'')"
    "map canon (ascii ''</Think>'') = map canon (ascii ''</think>'')"
    by (simp_all add: ascii_def canon_def)
  have attrs: "62 \<notin> set (ascii '' a=1'')" "ascii '' a=1'' = [] \<or> \<not> is_word (hd (ascii '' a=1''))"
    by (simp_all add: ascii_def is_word_def)
  have body: "\<forall>j<length (ascii ''x<y''). \<not> ci_prefix (ascii ''</think>'') (drop j (ascii ''x<y'' @ ascii ''</Think>'' @ ascii '' ok''))"
    by (simp add: ascii_def ci_prefix_def canon_def All_less_Suc)
  have pre: "\<forall>k<length (ascii ''1<2 ''). match_think (drop k (ascii ''1<2 '' @ ?blk)) = None"
    by (simp add: ascii_def match_think_def ci_prefix_def canon_def All_less_Suc)
  have len: "(22::nat) = length (ascii ''<THINK'' @ ascii '' a=1'' @ [62] @ ascii ''x<y'' @ ascii ''</Think>'')"
    by (simp add: ascii_def)
  have ex: "\<exists>otg ats bdy ctg pst.
           ?blk = otg @ ats @ [62] @ bdy @ ctg @ pst \<and>
           22 = length (otg @ ats @ [62] @ bdy @ ctg) \<and>
           map canon otg = map canon (ascii ''<think'') \<and>
           map canon ctg = map canon (ascii ''</think>'') \<and>
           62 \<notin> set ats \<and> (ats = [] \<or> \<not> is_word (hd ats)) \<and>
           (\<forall>j<length bdy. \<not> ci_prefix (ascii ''</think>'') (drop j (bdy @ ctg @ pst)))"
    apply (rule exI [of _ "ascii ''<THINK''"])
    apply (rule exI [of _ "ascii '' a=1''"])
    apply (rule exI [of _ "ascii ''x<y''"])
    apply (rule exI [of _ "ascii ''</Think>''"])
    apply (rule exI [of _ "ascii '' ok''"])
    apply (intro conjI refl len tags attrs body)
    done
  have keep: "match_think (49 # ascii ''<2'') = None"
    by (simp add: ascii_def match_think_def ci_prefix_def canon_def)
  have c: "find_close (ascii ''<think>abc'') = None"
    by (simp add: ascii_def ci_prefix_def canon_def)
  have d: "trim (ascii ''1<2 '' @ strip_think 0 (ascii '' ok'')) = ascii ''1<2  ok''"
    by (simp add: extractor_eval ascii_def)
  have e: "trim (ascii ''<think>abc'') = ascii ''<think>abc''"
    by (simp add: extractor_eval ascii_def)
  have m: "match_think ?blk = Some 22" using ex by (rule c3 [THEN iffD2])
  have drp: "drop 22 ?blk = ascii '' ok''" by (simp add: ascii_def)
  have s1: "strip_think 0 ?blk = strip_think 0 (ascii '' ok'')"
    using c4 [THEN mp, OF m] unfolding drp .
  have s2: "strip_think 0 (49 # ascii ''<2'') = 49 # strip_think 0 (ascii ''<2'')"
    using keep by (rule c5 [THEN mp])
  have hyp: "(\<forall>k<length (ascii ''1<2 ''). match_think (drop k (ascii ''1<2 '' @ ?blk)) = None)
        \<and> map canon (ascii ''<THINK'') = map canon (ascii ''<think'')
        \<and> map canon (ascii ''</Think>'') = map canon (ascii ''</think>'')
        \<and> 62 \<notin> set (ascii '' a=1'') \<and> (ascii '' a=1'' = [] \<or> \<not> is_word (hd (ascii '' a=1'')))
        \<and> (\<forall>j<length (ascii ''x<y''). \<not> ci_prefix (ascii ''</think>'') (drop j (ascii ''x<y'' @ ascii ''</Think>'' @ ascii '' ok'')))"
    by (intro conjI pre tags attrs body)
  have s3: "sanitizeContent (ascii ''1<2 '' @ ?blk) = ascii ''1<2  ok''"
    using c6 [THEN mp, OF hyp] unfolding d .
  have s4: "collectReplies (ascii ''  A'') = collectReplies (ascii ''A'')"
    using a by (rule c1 [THEN mp])
  have s5: "sanitizeContent (ascii ''<think>abc'') = ascii ''<think>abc''"
    using c7 [THEN mp, OF c] unfolding e .
  show ?thesis by (intro conjI a s4 m s1 keep s2 s3 c s5)
qed

text \<open>
  C6, as stated, fails for the unterminated variant: \<open><think>abc\<close> leaves
  \<open>sanitizeContent\<close> unchanged, and in \<open><think>\<close>, a line feed and an 11-unit sentence
  that ends in U+FF01, the sentence of the unclosed block is returned as a reply.
\<close>

theorem sanitizeContent_unterminated_counterexample:
  "sanitizeContent (ascii ''<think>abc'') = ascii ''<think>abc''
   \<and> collectReplies
        (ascii ''<think>'' @ [10] @
         [25105, 35273, 24471, 24212, 35813, 21453, 20987, 20182, 19968, 19979, 65281]) =
      [[25105, 35273, 24471, 24212, 35813, 21453, 20987, 20182, 19968, 19979, 65281]]"
  by (simp add: json_eval extractor_eval)

section \<open>The request orchestrator: proofs\<close>

subsection \<open>Invariants of the output stream\<close>

lemma arraysEqual_iff: "arraysEqual a b \<longleftrightarrow> a = b"
  by (auto simp: arraysEqual_def list_eq_iff_zip_eq list_all_iff)

lemma tryParseJsonArray_length: "length (tryParseJsonArray raw) \<le> 3"
  by (simp add: tryParseJsonArray_def split: option.splits json.splits)

lemma fallbackSplit_length: "length (fallbackSplit raw) \<le> 3"
  by (simp add: fallbackSplit_def)

lemma collectReplies_length: "length (collectReplies raw) \<le> 3"
  by (simp add: collectReplies_def Let_def tryParseJsonArray_length fallbackSplit_length split: option.splits)

lemma same_partial_refl: "same_partial f f \<longleftrightarrow> (\<exists>p. f = PartialFrame p)"
  by (cases f) simp_all

lemma partials_differ_snoc:
  "partials_differ (fs @ [f]) \<longleftrightarrow> partials_differ fs \<and> (fs = [] \<or> \<not> same_partial (last fs) f)"
  by (induction fs rule: partials_differ.induct) auto

lemma prefix_ok_Nil: "prefix_ok []"
  by (simp add: prefix_ok_def)

lemma prefix_ok_snoc:
  "prefix_ok (fs @ [f]) \<longleftrightarrow>
     prefix_ok fs \<and> \<not> is_terminal f \<and> partial_ok f \<and> (fs = [] \<or> \<not> same_partial (last fs) f)"
  by (auto simp: prefix_ok_def partials_differ_snoc)

lemma send_open:
  "\<not> is_closed ctl \<Longrightarrow> send f ctl = (Normal, ctl\<lparr>enqueued := enqueued ctl @ [f]\<rparr>)"
  by (simp add: send_def)

lemma close_open: "\<not> is_closed ctl \<Longrightarrow> close ctl = (Normal, ctl\<lparr>is_closed := True\<rparr>)"
  by (simp add: close_def)

lemma closeWithError_open:
  "\<not> is_closed ctl \<Longrightarrow>
   closeWithError e s ctl = (Normal, ctl\<lparr>enqueued := enqueued ctl @ [ErrorFrame e s], is_closed := True\<rparr>)"
  by (simp add: closeWithError_def send_def close_def)

lemma flushPartial_open:
  assumes "\<not> is_closed ctl"
  shows "flushPartial st ctl =
    (if collectReplies (aggregated st) = [] \<or> collectReplies (aggregated st) = lastSent st
     then (Normal, st, ctl)
     else (Normal, st\<lparr>lastSent := collectReplies (aggregated st)\<rparr>,
           ctl\<lparr>enqueued := enqueued ctl @ [PartialFrame (collectReplies (aggregated st))]\<rparr>))"
  using assms by (simp add: flushPartial_def Let_def arraysEqual_iff send_def)

lemma same_partial_last_cases:
  "same_partial f (PartialFrame p) \<or> \<not> same_partial f f \<Longrightarrow> \<not> same_partial f (PartialFrame q) \<or> p = q"
  by (cases f) auto

lemma flushPartial_inv:
  assumes "attempt_inv st ctl" and "flushPartial st ctl = (c, st', ctl')"
  shows "c = Normal \<and> attempt_inv st' ctl' \<and> aggregated st' = aggregated st \<and> buffer st' = buffer st"
proof -
  have op: "\<not> is_closed ctl" using assms(1) by (simp add: attempt_inv_def)
  let ?r = "collectReplies (aggregated st)"
  show ?thesis
  proof (cases "?r = [] \<or> ?r = lastSent st")
    case True
    then show ?thesis using assms flushPartial_open [OF op, of st] by auto
  next
    case False
    then have res: "c = Normal" "st' = st\<lparr>lastSent := ?r\<rparr>"
      "ctl' = ctl\<lparr>enqueued := enqueued ctl @ [PartialFrame ?r]\<rparr>"
      using assms(2) flushPartial_open [OF op, of st] by auto
    have len: "1 \<le> length ?r \<and> length ?r \<le> 3"
      using False collectReplies_length [of "aggregated st"] by (cases ?r) auto
    have nolast: "enqueued ctl = [] \<or> \<not> same_partial (last (enqueued ctl)) (PartialFrame ?r)"
      using assms(1) False same_partial_last_cases [of "last (enqueued ctl)" "lastSent st" ?r]
      by (auto simp: attempt_inv_def)
    have "prefix_ok (enqueued ctl @ [PartialFrame ?r])"
      using assms(1) len nolast by (simp add: prefix_ok_snoc attempt_inv_def)
    then show ?thesis using res op by (simp add: attempt_inv_def)
  qed
qed


lemma handle_line_inv:
  assumes "attempt_inv st ctl" and "handle_line rawLine st ctl = (c, st', ctl')"
  shows "c = Normal \<and> attempt_inv st' ctl'"
proof -
  have upd: "attempt_inv (st\<lparr>aggregated := a\<rparr>) ctl" for a
    using assms(1) by (simp add: attempt_inv_def)
  show ?thesis
    using assms flushPartial_inv [OF upd]
    by (auto simp: handle_line_def Let_def split: if_splits option.splits)
qed

lemma handle_lines_inv:
  "attempt_inv st ctl \<Longrightarrow> handle_lines ls st ctl = (c, st', ctl') \<Longrightarrow> c = Normal \<and> attempt_inv st' ctl'"
proof (induction ls arbitrary: st ctl)
  case Nil
  then show ?case by simp
next
  case (Cons l ls)
  obtain c1 st1 ctl1 where h: "handle_line l st ctl = (c1, st1, ctl1)" by (cases "handle_line l st ctl") auto
  from handle_line_inv [OF Cons.prems(1) h] have c1: "c1 = Normal" and inv1: "attempt_inv st1 ctl1" by simp_all
  from Cons.prems(2) h c1 have "handle_lines ls st1 ctl1 = (c, st', ctl')" by simp
  from Cons.IH [OF inv1 this] show ?case .
qed

lemma handle_events_inv:
  "attempt_inv st ctl \<Longrightarrow> handle_events es st ctl = (c, st', ctl') \<Longrightarrow> c = Normal \<and> attempt_inv st' ctl'"
proof (induction es arbitrary: st ctl)
  case Nil
  then show ?case by simp
next
  case (Cons e es)
  obtain c1 st1 ctl1 where h: "handle_lines (split_lf [] e) st ctl = (c1, st1, ctl1)"
    by (cases "handle_lines (split_lf [] e) st ctl") auto
  from handle_lines_inv [OF Cons.prems(1) h] have c1: "c1 = Normal" and inv1: "attempt_inv st1 ctl1" by simp_all
  from Cons.prems(2) h c1 have "handle_events es st1 ctl1 = (c, st', ctl')" by simp
  from Cons.IH [OF inv1 this] show ?case .
qed

lemma read_loop_inv:
  "attempt_inv st ctl \<Longrightarrow> read_loop reads st ctl = (c, st', ctl') \<Longrightarrow> c \<noteq> Returned \<and> attempt_inv st' ctl'"
proof (induction reads arbitrary: st ctl)
  case Nil
  then show ?case by simp
next
  case (Cons r reads)
  show ?case
  proof (cases r)
    case ReadError
    then show ?thesis using Cons.prems by simp
  next
    case (Chunk chunk)
    let ?events = "split_lflf [] (buffer st @ chunk)"
    have inv0: "attempt_inv (st\<lparr>buffer := last ?events\<rparr>) ctl"
      using Cons.prems(1) by (simp add: attempt_inv_def)
    obtain c1 st1 ctl1 where h: "handle_events (butlast ?events) (st\<lparr>buffer := last ?events\<rparr>) ctl = (c1, st1, ctl1)"
      by (cases "handle_events (butlast ?events) (st\<lparr>buffer := last ?events\<rparr>) ctl") auto
    from handle_events_inv [OF inv0 h] have c1: "c1 = Normal" and inv1: "attempt_inv st1 ctl1" by simp_all
    from Cons.prems(2) Chunk h c1 have "read_loop reads st1 ctl1 = (c, st', ctl')" by (simp add: Let_def)
    from Cons.IH [OF inv1 this] show ?thesis .
  qed
qed

lemma attempt_inv_open: "attempt_inv st ctl \<Longrightarrow> \<not> is_closed ctl \<and> prefix_ok (enqueued ctl)"
  by (simp add: attempt_inv_def)

lemma finished_terminal:
  assumes "\<not> is_closed ctl" and "prefix_ok (enqueued ctl)" and "is_terminal t"
  shows "finished (ctl\<lparr>enqueued := enqueued ctl @ [t], is_closed := True\<rparr>)"
  using assms by (auto simp: finished_def)

lemma closeWithError_finished:
  assumes "\<not> is_closed ctl" and "prefix_ok (enqueued ctl)"
  shows "\<exists>ctl'. closeWithError e s ctl = (Normal, ctl') \<and> finished ctl'"
  using finished_terminal [OF assms, of "ErrorFrame e s"] closeWithError_open [OF assms(1)] by simp

lemma exhausted_finished:
  assumes "\<not> is_closed ctl" and "prefix_ok (enqueued ctl)"
  shows "\<exists>ctl'. exhausted errors ctl = (Normal, ctl') \<and> finished ctl'"
  using closeWithError_finished [OF assms] by (simp add: exhausted_def Let_def split: list.splits)

lemma start_attempt:
  assumes "\<not> is_closed ctl" and "prefix_ok (enqueued ctl)"
  shows "attempt_inv \<lparr>buffer = [], aggregated = [], lastSent = []\<rparr> (ctl\<lparr>enqueued := enqueued ctl @ [ModelFrame m]\<rparr>)"
    and "prefix_ok (enqueued ctl @ [ModelFrame m])"
  using assms by (simp_all add: attempt_inv_def prefix_ok_snoc)

lemma run_models_shape:
  "\<not> is_closed ctl \<Longrightarrow> prefix_ok (enqueued ctl) \<Longrightarrow> run_models errors cands ctl = (c, ctl') \<Longrightarrow>
   (c = Thrown \<and> \<not> is_closed ctl' \<and> prefix_ok (enqueued ctl')) \<or> (c \<noteq> Thrown \<and> finished ctl')"
proof (induction cands arbitrary: errors ctl)
  case Nil
  then show ?case using exhausted_finished [OF Nil.prems(1,2), of errors] by auto
next
  case (Cons cand rest)
  obtain m fetched where cand: "cand = (m, fetched)" by (cases cand)
  let ?ctl1 = "ctl\<lparr>enqueued := enqueued ctl @ [ModelFrame m]\<rparr>"
  have s1: "send (ModelFrame m) ctl = (Normal, ?ctl1)" using Cons.prems(1) by (rule send_open)
  have op1: "\<not> is_closed ?ctl1" using Cons.prems(1) by simp
  have ok1: "prefix_ok (enqueued ?ctl1)" using start_attempt(2) [OF Cons.prems(1,2)] by simp
  show ?case
  proof (cases fetched)
    case FetchError
    then show ?thesis using Cons.prems(3) cand s1 op1 ok1 by auto
  next
    case (Response st payload body)
    show ?thesis
    proof (cases "response_ok st")
      case False
      show ?thesis
      proof (cases "shouldRetry st (extractErrorMessage payload)")
        case True
        then have "run_models (errors @ [\<lparr>model = m, status = st, message = extractErrorMessage payload\<rparr>]) rest ?ctl1 = (c, ctl')"
          using Cons.prems(3) cand s1 Response False by (simp add: Let_def)
        from Cons.IH [OF op1 ok1 this] show ?thesis .
      next
        case nr: False
        obtain k where k: "closeWithError (extractErrorMessage payload) st ?ctl1 = (Normal, k)" "finished k"
          using closeWithError_finished [OF op1 ok1] by blast
        then show ?thesis using Cons.prems(3) cand s1 Response False nr by (simp add: Let_def)
      qed
    next
      case True
      show ?thesis
      proof (cases body)
        case None
        then have "run_models (errors @ [\<lparr>model = m, status = 502, message = EMPTY_RESPONSE_MESSAGE\<rparr>]) rest ?ctl1 = (c, ctl')"
          using Cons.prems(3) cand s1 Response True by simp
        from Cons.IH [OF op1 ok1 this] show ?thesis .
      next
        case (Some reads)
        let ?init = "\<lparr>buffer = [], aggregated = [], lastSent = []\<rparr>"
        obtain c2 st2 ctl2 where rl: "read_loop reads ?init ?ctl1 = (c2, st2, ctl2)"
          by (cases "read_loop reads ?init ?ctl1") auto
        have inv1: "attempt_inv ?init ?ctl1" using start_attempt(1) [OF Cons.prems(1,2)] .
        from read_loop_inv [OF inv1 rl] have c2: "c2 \<noteq> Returned" and inv2: "attempt_inv st2 ctl2" by simp_all
        have op2: "\<not> is_closed ctl2" and ok2: "prefix_ok (enqueued ctl2)"
          using attempt_inv_open [OF inv2] by simp_all
        show ?thesis
        proof (cases c2)
          case Normal
          let ?replies = "collectReplies (trim (aggregated st2))"
          show ?thesis
          proof (cases "?replies = []")
            case e: True
            then have "run_models (errors @ [\<lparr>model = m, status = 502, message = NO_ANSWER_MESSAGE\<rparr>]) rest ctl2 = (c, ctl')"
              using Cons.prems(3) cand s1 Response True Some rl Normal by (simp add: Let_def)
            from Cons.IH [OF op2 ok2 this] show ?thesis .
          next
            case ne: False
            have "finished (ctl2\<lparr>enqueued := enqueued ctl2 @ [CompleteFrame ?replies], is_closed := True\<rparr>)"
              using op2 ok2 by (rule finished_terminal) simp
            then show ?thesis
              using Cons.prems(3) cand s1 Response True Some rl Normal ne op2
              by (auto simp: Let_def send_def close_def)
          qed
        next
          case Returned
          then show ?thesis using c2 by simp
        next
          case Thrown
          then show ?thesis using Cons.prems(3) cand s1 Response True Some rl op2 ok2 by auto
        qed
      qed
    qed
  qed
qed

lemma stream_start_finished:
  "\<exists>c ctl. stream_start candidates = (c, ctl) \<and> c \<noteq> Thrown \<and> finished ctl \<and>
     (fst (run_models [] candidates \<lparr>enqueued = [], is_closed = False\<rparr>) = Thrown \<longrightarrow>
        c = Normal \<and> last (enqueued ctl) = ErrorFrame SERVICE_UNAVAILABLE_MESSAGE 500)"
proof -
  let ?c0 = "\<lparr>enqueued = [], is_closed = False\<rparr>"
  obtain c1 ctl1 where r: "run_models [] candidates ?c0 = (c1, ctl1)" by (cases "run_models [] candidates ?c0")
  have sh: "(c1 = Thrown \<and> \<not> is_closed ctl1 \<and> prefix_ok (enqueued ctl1)) \<or> (c1 \<noteq> Thrown \<and> finished ctl1)"
    by (rule run_models_shape [OF _ _ r]) (simp_all add: prefix_ok_Nil)
  show ?thesis
  proof (cases "c1 = Thrown")
    case True
    then have op: "\<not> is_closed ctl1" and ok: "prefix_ok (enqueued ctl1)" using sh by auto
    have fin: "finished (ctl1\<lparr>enqueued := enqueued ctl1 @ [ErrorFrame SERVICE_UNAVAILABLE_MESSAGE 500], is_closed := True\<rparr>)"
      using op ok by (rule finished_terminal) simp
    show ?thesis using r True closeWithError_open [OF op] fin by (simp add: stream_start_def)
  next
    case False
    then have "finished ctl1" using sh by auto
    then show ?thesis using r False by (cases c1) (simp_all add: stream_start_def)
  qed
qed


lemma finished_frames:
  assumes "finished ctl"
  shows "list_all partial_ok (enqueued ctl)" and "partials_differ (enqueued ctl)"
    and "\<exists>pre t. enqueued ctl = pre @ [t] \<and> is_terminal t \<and> list_all (\<lambda>f. \<not> is_terminal f) pre"
proof -
  from assms obtain pre t where e: "enqueued ctl = pre @ [t]" and p: "prefix_ok pre" and t: "is_terminal t"
    by (auto simp: finished_def)
  have np: "\<not> same_partial f t" for f using t by (cases t; cases f) simp_all
  have pt: "partial_ok t" using t by (cases t) simp_all
  show "list_all partial_ok (enqueued ctl)" using e p pt by (simp add: prefix_ok_def list_all_iff)
  show "partials_differ (enqueued ctl)" using e p np by (simp add: partials_differ_snoc prefix_ok_def)
  show "\<exists>pre t. enqueued ctl = pre @ [t] \<and> is_terminal t \<and> list_all (\<lambda>f. \<not> is_terminal f) pre"
    using e p t by (auto simp: prefix_ok_def list_all_iff)
qed

subsection \<open>Two concrete requests\<close>

text \<open>
  The three payloads of \<open>example_stream\<close>, as \<open>handle_line\<close> passes them to
  \<open>JSON.parse\<close>, and the three texts aggregated from them: \<open>Hi there!\<close>,
  \<open>Hi there! Bye now!\<close> and the latter with a space behind it.
\<close>

lemma example_parse:
  "JSON_parse [123, 34, 99, 104, 111, 105, 99, 101, 115, 34, 58, 91, 123, 34, 100, 101, 108, 116, 97, 34, 58, 123, 34, 99, 111, 110, 116, 101, 110, 116, 34, 58, 34, 72, 105, 32, 116, 104, 101, 114, 101, 33, 34, 125, 125, 93, 125] = Some (JObject [([99, 104, 111, 105, 99, 101, 115], JArray [JObject [([100, 101, 108, 116, 97], JObject [([99, 111, 110, 116, 101, 110, 116], JString [72, 105, 32, 116, 104, 101, 114, 101, 33])])]])])"
  "JSON_parse [123, 34, 99, 104, 111, 105, 99, 101, 115, 34, 58, 91, 123, 34, 100, 101, 108, 116, 97, 34, 58, 123, 34, 99, 111, 110, 116, 101, 110, 116, 34, 58, 34, 32, 66, 121, 101, 32, 110, 111, 119, 33, 34, 125, 125, 93, 125] = Some (JObject [([99, 104, 111, 105, 99, 101, 115], JArray [JObject [([100, 101, 108, 116, 97], JObject [([99, 111, 110, 116, 101, 110, 116], JString [32, 66, 121, 101, 32, 110, 111, 119, 33])])]])])"
  "JSON_parse [123, 34, 99, 104, 111, 105, 99, 101, 115, 34, 58, 91, 123, 34, 100, 101, 108, 116, 97, 34, 58, 123, 34, 99, 111, 110, 116, 101, 110, 116, 34, 58, 34, 32, 34, 125, 125, 93, 125] = Some (JObject [([99, 104, 111, 105, 99, 101, 115], JArray [JObject [([100, 101, 108, 116, 97], JObject [([99, 111, 110, 116, 101, 110, 116], JString [32])])]])])"
  by (simp_all add: json_eval)

lemma example_collect:
  "collectReplies [72, 105, 32, 116, 104, 101, 114, 101, 33] = [[72, 105, 32, 116, 104, 101, 114, 101, 33]]"
  "collectReplies [72, 105, 32, 116, 104, 101, 114, 101, 33, 32, 66, 121, 101, 32, 110, 111, 119, 33] = [[72, 105, 32, 116, 104, 101, 114, 101, 33, 32, 66, 121, 101, 32, 110, 111, 119, 33]]"
  "collectReplies [72, 105, 32, 116, 104, 101, 114, 101, 33, 32, 66, 121, 101, 32, 110, 111, 119, 33, 32] = [[72, 105, 32, 116, 104, 101, 114, 101, 33, 32, 66, 121, 101, 32, 110, 111, 119, 33]]"
  by (simp_all add: json_eval extractor_eval)

lemma example_run:
  "stream_start [([109, 49], Response 200 JNull (Some example_stream))] =
     (Returned,
      \<lparr>enqueued =
         [ModelFrame [109, 49],
          PartialFrame [[72, 105, 32, 116, 104, 101, 114, 101, 33]],
          PartialFrame [[72, 105, 32, 116, 104, 101, 114, 101, 33, 32, 66, 121, 101, 32, 110, 111, 119, 33]],
          CompleteFrame [[72, 105, 32, 116, 104, 101, 114, 101, 33, 32, 66, 121, 101, 32, 110, 111, 119, 33]]],
       is_closed = True\<rparr>)"
  by (simp add: stream_start_def example_stream_def send_def close_def response_ok_def
        flushPartial_def handle_line_def arraysEqual_def extractDeltaText_def get_key_def
        example_parse example_collect ascii_def trim_def is_ws_def Let_def)


lemma example_read_error:
  "run_models [] [([109, 49], Response 200 JNull (Some [Chunk [104, 101, 108, 108, 111], ReadError]))]
     \<lparr>enqueued = [], is_closed = False\<rparr> =
   (Thrown, \<lparr>enqueued = [ModelFrame [109, 49]], is_closed = False\<rparr>)"
  by (simp add: send_def response_ok_def Let_def)

subsection \<open>The frame sequence of a request\<close>

text \<open>
  C1: whatever the candidates and the provider's answers are, the handler ends without
  an uncaught exception, the stream is closed, and the frames sent are some
  \<open>model\<close> and \<open>partial\<close> frames followed by exactly one terminal frame (\<open>complete\<close> or
  \<open>error\<close>), which is the last frame. When the loop throws (a rejected \<open>fetch\<close> or
  \<open>read\<close>), the terminal frame is the \<open>error\<close> frame of the \<open>catch\<close> block, with
  status 500. Every provider stream is taken to end or fail after finitely many reads.
\<close>

theorem stream_one_terminal_frame:
  "\<exists>c ctl pre t.
     stream_start candidates = (c, ctl) \<and> c \<noteq> Thrown \<and> is_closed ctl \<and>
     enqueued ctl = pre @ [t] \<and> is_terminal t \<and> list_all (\<lambda>f. \<not> is_terminal f) pre \<and>
     (fst (run_models [] candidates \<lparr>enqueued = [], is_closed = False\<rparr>) = Thrown \<longrightarrow>
        t = ErrorFrame SERVICE_UNAVAILABLE_MESSAGE 500)"
proof -
  obtain c ctl where s: "stream_start candidates = (c, ctl)" and c: "c \<noteq> Thrown"
    and f: "finished ctl"
    and x: "fst (run_models [] candidates \<lparr>enqueued = [], is_closed = False\<rparr>) = Thrown \<longrightarrow>
        c = Normal \<and> last (enqueued ctl) = ErrorFrame SERVICE_UNAVAILABLE_MESSAGE 500"
    using stream_start_finished [of candidates] by blast
  from finished_frames(3) [OF f] obtain pre t where
    e: "enqueued ctl = pre @ [t]" "is_terminal t" "list_all (\<lambda>f. \<not> is_terminal f) pre" by blast
  have "is_closed ctl" using f by (simp add: finished_def)
  moreover have "last (enqueued ctl) = t" using e(1) by simp
  ultimately show ?thesis using s c e x by auto
qed

theorem stream_one_terminal_frame_witness:
  "fst (run_models [] [([109, 49], Response 200 JNull (Some [Chunk [104, 101, 108, 108, 111], ReadError]))]
          \<lparr>enqueued = [], is_closed = False\<rparr>) = Thrown
   \<and> (\<exists>c ctl pre.
         stream_start [([109, 49], Response 200 JNull (Some [Chunk [104, 101, 108, 108, 111], ReadError]))] = (c, ctl) \<and>
         c \<noteq> Thrown \<and> is_closed ctl \<and>
         enqueued ctl = pre @ [ErrorFrame SERVICE_UNAVAILABLE_MESSAGE 500] \<and>
         list_all (\<lambda>f. \<not> is_terminal f) pre)"
proof -
  have a: "fst (run_models [] [([109, 49], Response 200 JNull (Some [Chunk [104, 101, 108, 108, 111], ReadError]))]
          \<lparr>enqueued = [], is_closed = False\<rparr>) = Thrown"
    by (simp only: example_read_error fst_conv)
  show ?thesis
    using a stream_one_terminal_frame [of "[([109, 49], Response 200 JNull (Some [Chunk [104, 101, 108, 108, 111], ReadError]))]"]
    by blast
qed

text \<open>
  C10: every \<open>partial\<close> frame of a request carries between one and three replies, and
  no \<open>partial\<close> frame equals the \<open>partial\<close> frame sent directly before it (each attempt
  starts with a \<open>model\<close> frame, so two adjacent \<open>partial\<close> frames belong to one attempt).
  \<open>flushPartial\<close> on an open stream sends nothing when the extraction is empty or equal
  to \<open>lastSent\<close>, and one \<open>partial\<close> frame with the extraction otherwise.
\<close>

theorem partial_frames_wellformed:
  "list_all partial_ok (enqueued (snd (stream_start candidates)))
   \<and> partials_differ (enqueued (snd (stream_start candidates)))
   \<and> (\<not> is_closed ctl \<longrightarrow>
        enqueued (snd (snd (flushPartial st ctl))) =
          enqueued ctl @
          (if collectReplies (aggregated st) = [] \<or> collectReplies (aggregated st) = lastSent st
           then [] else [PartialFrame (collectReplies (aggregated st))]))"
proof -
  obtain c k where s: "stream_start candidates = (c, k)" and f: "finished k"
    using stream_start_finished [of candidates] by blast
  have "\<not> is_closed ctl \<longrightarrow>
        enqueued (snd (snd (flushPartial st ctl))) =
          enqueued ctl @
          (if collectReplies (aggregated st) = [] \<or> collectReplies (aggregated st) = lastSent st
           then [] else [PartialFrame (collectReplies (aggregated st))])"
    by (simp add: flushPartial_open)
  then show ?thesis using s finished_frames(1,2) [OF f] by simp
qed

theorem partial_frames_wellformed_witness:
  "enqueued (snd (stream_start [([109, 49], Response 200 JNull (Some example_stream))])) =
     [ModelFrame [109, 49],
      PartialFrame [[72, 105, 32, 116, 104, 101, 114, 101, 33]],
      PartialFrame [[72, 105, 32, 116, 104, 101, 114, 101, 33, 32, 66, 121, 101, 32, 110, 111, 119, 33]],
      CompleteFrame [[72, 105, 32, 116, 104, 101, 114, 101, 33, 32, 66, 121, 101, 32, 110, 111, 119, 33]]]
   \<and> list_all partial_ok (enqueued (snd (stream_start [([109, 49], Response 200 JNull (Some example_stream))])))
   \<and> partials_differ (enqueued (snd (stream_start [([109, 49], Response 200 JNull (Some example_stream))])))
   \<and> enqueued (snd (snd (flushPartial \<lparr>buffer = [], aggregated = [72, 105, 32, 116, 104, 101, 114, 101, 33], lastSent = []\<rparr>
                               \<lparr>enqueued = [], is_closed = False\<rparr>))) =
       [PartialFrame [[72, 105, 32, 116, 104, 101, 114, 101, 33]]]"
proof -
  have a: "\<not> is_closed \<lparr>enqueued = [], is_closed = False\<rparr>" by simp
  show ?thesis
    using a partial_frames_wellformed [of "[([109, 49], Response 200 JNull (Some example_stream))]"
        "\<lparr>enqueued = [], is_closed = False\<rparr>" "\<lparr>buffer = [], aggregated = [72, 105, 32, 116, 104, 101, 114, 101, 33], lastSent = []\<rparr>"]
    by (simp add: example_run example_collect)
qed

subsection \<open>Retry or abort\<close>

lemma includes_str_sublist: "includes_str k s \<longleftrightarrow> sublist k s"
  by (induction s) (simp_all add: sublist_Cons_right)

lemma includes_str_iff: "includes_str k s \<longleftrightarrow> (\<exists>a b. s = a @ k @ b)"
  by (simp add: includes_str_sublist sublist_def)

lemma shouldRetry_iff:
  "shouldRetry st msg \<longleftrightarrow>
     500 \<le> st \<or>
     (\<exists>phrase\<in>set [ascii ''provider returned error'', ascii ''no endpoints found'',
                     ascii ''upstream error'', ascii ''temporarily unavailable''].
        \<exists>a b. toLowerCase msg = a @ phrase @ b)"
  by (simp add: shouldRetry_def Let_def includes_str_iff)

lemma run_models_abort:
  assumes "\<not> is_closed ctl" and "\<not> response_ok st" and "\<not> shouldRetry st (extractErrorMessage payload)"
  shows "run_models errors ((m, Response st payload body) # rest) ctl =
         (Returned, ctl\<lparr>enqueued := enqueued ctl @ [ModelFrame m, ErrorFrame (extractErrorMessage payload) st],
                        is_closed := True\<rparr>)"
  using assms by (simp add: send_open closeWithError_open Let_def)

lemma run_models_retry:
  assumes "\<not> is_closed ctl" and "\<not> response_ok st" and "shouldRetry st (extractErrorMessage payload)"
  shows "run_models errors ((m, Response st payload body) # rest) ctl =
         run_models (errors @ [\<lparr>model = m, status = st, message = extractErrorMessage payload\<rparr>]) rest
           (ctl\<lparr>enqueued := enqueued ctl @ [ModelFrame m]\<rparr>)"
  using assms by (simp add: send_open Let_def)

text \<open>
  C8: after a response whose status is not a success, the loop goes on to the next
  candidate if and only if the status is at least 500 or the lower-cased error message
  contains one of the four phrases. Otherwise it sends the \<open>error\<close> frame with that
  status and message, closes the stream and returns: the later candidates are not
  tried, whatever they are. On a retry the failure is recorded and the loop continues
  with the remaining candidates.
\<close>

theorem shouldRetry_decides:
  "(shouldRetry st msg \<longleftrightarrow>
     500 \<le> st \<or>
     (\<exists>phrase\<in>set [ascii ''provider returned error'', ascii ''no endpoints found'',
                     ascii ''upstream error'', ascii ''temporarily unavailable''].
        \<exists>a b. toLowerCase msg = a @ phrase @ b))
   \<and> (\<not> is_closed ctl \<and> \<not> response_ok st \<and> \<not> shouldRetry st (extractErrorMessage payload) \<longrightarrow>
        run_models errors ((m, Response st payload body) # rest) ctl =
          (Returned,
           ctl\<lparr>enqueued := enqueued ctl @ [ModelFrame m, ErrorFrame (extractErrorMessage payload) st],
               is_closed := True\<rparr>))
   \<and> (\<not> is_closed ctl \<and> \<not> response_ok st \<and> shouldRetry st (extractErrorMessage payload) \<longrightarrow>
        run_models errors ((m, Response st payload body) # rest) ctl =
          run_models (errors @ [\<lparr>model = m, status = st, message = extractErrorMessage payload\<rparr>]) rest
            (ctl\<lparr>enqueued := enqueued ctl @ [ModelFrame m]\<rparr>))"
  using shouldRetry_iff [of st msg] run_models_abort [of ctl st payload errors m body rest]
    run_models_retry [of ctl st payload errors m body rest]
  by blast

lemma example_messages:
  "extractErrorMessage (JObject [(ascii ''error'', JObject [(ascii ''message'', JString (ascii '' No auth ''))])]) = ascii ''No auth''"
  "extractErrorMessage (JObject [(ascii ''error'', JString (ascii ''No Endpoints Found for x''))]) = ascii ''No Endpoints Found for x''"
  by (simp_all add: extractErrorMessage_def get_key_def ascii_def trim_def is_ws_def)

lemma example_retry:
  "\<not> shouldRetry 401 (ascii ''No auth'')"
  "shouldRetry 404 (ascii ''No Endpoints Found for x'')"
  by (simp_all add: shouldRetry_def toLowerCase_def lower_unit_def ascii_def)


theorem shouldRetry_decides_witness:
  "\<not> response_ok 401 \<and> \<not> shouldRetry 401 (extractErrorMessage (JObject [(ascii ''error'', JObject [(ascii ''message'', JString (ascii '' No auth ''))])]))
   \<and> run_models [] [(ascii ''m1'', Response 401 (JObject [(ascii ''error'', JObject [(ascii ''message'', JString (ascii '' No auth ''))])]) None), (ascii ''m2'', FetchError)] \<lparr>enqueued = [], is_closed = False\<rparr> =
       (Returned, \<lparr>enqueued = [ModelFrame (ascii ''m1''), ErrorFrame (ascii ''No auth'') 401], is_closed = True\<rparr>)
   \<and> \<not> response_ok 404 \<and> shouldRetry 404 (extractErrorMessage (JObject [(ascii ''error'', JString (ascii ''No Endpoints Found for x''))]))
   \<and> run_models [] [(ascii ''m1'', Response 404 (JObject [(ascii ''error'', JString (ascii ''No Endpoints Found for x''))]) None), (ascii ''m2'', FetchError)] \<lparr>enqueued = [], is_closed = False\<rparr> =
       run_models [\<lparr>model = ascii ''m1'', status = 404, message = ascii ''No Endpoints Found for x''\<rparr>]
         [(ascii ''m2'', FetchError)] \<lparr>enqueued = [ModelFrame (ascii ''m1'')], is_closed = False\<rparr>"
proof -
  have a: "\<not> response_ok 401" "\<not> response_ok 404" by (simp_all add: response_ok_def)
  have b: "\<not> shouldRetry 401 (extractErrorMessage (JObject [(ascii ''error'', JObject [(ascii ''message'', JString (ascii '' No auth ''))])]))"
    "shouldRetry 404 (extractErrorMessage (JObject [(ascii ''error'', JString (ascii ''No Endpoints Found for x''))]))"
    by (simp_all only: example_messages example_retry not_False_eq_True)
  have c: "\<not> is_closed \<lparr>enqueued = [], is_closed = False\<rparr>" by simp
  show ?thesis
    using a b c
      shouldRetry_decides [of 401 "ascii ''No auth''" "\<lparr>enqueued = [], is_closed = False\<rparr>" "(JObject [(ascii ''error'', JObject [(ascii ''message'', JString (ascii '' No auth ''))])])" "[]" "ascii ''m1''" None "[(ascii ''m2'', FetchError)]"]
      shouldRetry_decides [of 404 "ascii ''No auth''" "\<lparr>enqueued = [], is_closed = False\<rparr>" "(JObject [(ascii ''error'', JString (ascii ''No Endpoints Found for x''))])" "[]" "ascii ''m1''" None "[(ascii ''m2'', FetchError)]"]
    by (simp add: example_messages)
qed

subsection \<open>Exhaustion of the candidates\<close>

lemma uniformI:
  assumes "\<And>st. \<exists>c st' fs. list_all (\<lambda>fr. \<not> is_terminal fr) fs \<and>
        (\<forall>ctl. \<not> is_closed ctl \<longrightarrow> f st ctl = (c, st', ctl\<lparr>enqueued := enqueued ctl @ fs\<rparr>))"
  shows "uniform f"
  using assms unfolding uniform_def by blast

lemma uniform_skip: "uniform (\<lambda>st ctl. (Normal, st, ctl))"
proof (rule uniformI)
  fix st :: stream_state
  have "list_all (\<lambda>fr. \<not> is_terminal fr) [] \<and>
        (\<forall>ctl. \<not> is_closed ctl \<longrightarrow> (Normal, st, ctl) = (Normal, st, ctl\<lparr>enqueued := enqueued ctl @ []\<rparr>))"
    by simp
  then show "\<exists>c st' fs. list_all (\<lambda>fr. \<not> is_terminal fr) fs \<and>
        (\<forall>ctl. \<not> is_closed ctl \<longrightarrow> (Normal, st, ctl) = (c, st', ctl\<lparr>enqueued := enqueued ctl @ fs\<rparr>))"
    by blast
qed

lemma uniform_seq:
  assumes f: "uniform f" and g: "uniform g"
  shows "uniform (\<lambda>st ctl. case f st ctl of (Normal, st', ctl') \<Rightarrow> g st' ctl' | r \<Rightarrow> r)"
proof (rule uniformI)
  fix st
  from f obtain c1 st1 fs1 where p1: "list_all (\<lambda>fr. \<not> is_terminal fr) fs1"
    and r1': "\<forall>ctl. \<not> is_closed ctl \<longrightarrow> f st ctl = (c1, st1, ctl\<lparr>enqueued := enqueued ctl @ fs1\<rparr>)"
    unfolding uniform_def by blast
  note r1 = r1' [rule_format]
  from g obtain c2 st2 fs2 where p2: "list_all (\<lambda>fr. \<not> is_terminal fr) fs2"
    and r2': "\<forall>ctl. \<not> is_closed ctl \<longrightarrow> g st1 ctl = (c2, st2, ctl\<lparr>enqueued := enqueued ctl @ fs2\<rparr>)"
    unfolding uniform_def by blast
  note r2 = r2' [rule_format]
  show "\<exists>c st' fs. list_all (\<lambda>fr. \<not> is_terminal fr) fs \<and>
        (\<forall>ctl. \<not> is_closed ctl \<longrightarrow>
           (case f st ctl of (Normal, st', ctl') \<Rightarrow> g st' ctl' | r \<Rightarrow> r) =
           (c, st', ctl\<lparr>enqueued := enqueued ctl @ fs\<rparr>))"
  proof (cases "c1 = Normal")
    case True
    have "\<forall>ctl. \<not> is_closed ctl \<longrightarrow>
           (case f st ctl of (Normal, st', ctl') \<Rightarrow> g st' ctl' | r \<Rightarrow> r) =
           (c2, st2, ctl\<lparr>enqueued := enqueued ctl @ (fs1 @ fs2)\<rparr>)"
    proof (intro allI impI)
      fix ctl :: controller assume op: "\<not> is_closed ctl"
      have op1: "\<not> is_closed (ctl\<lparr>enqueued := enqueued ctl @ fs1\<rparr>)" using op by simp
      show "(case f st ctl of (Normal, st', ctl') \<Rightarrow> g st' ctl' | r \<Rightarrow> r) =
           (c2, st2, ctl\<lparr>enqueued := enqueued ctl @ (fs1 @ fs2)\<rparr>)"
        using r1 [OF op] r2 [OF op1] True by simp
    qed
    moreover have "list_all (\<lambda>fr. \<not> is_terminal fr) (fs1 @ fs2)" using p1 p2 by simp
    ultimately show ?thesis by blast
  next
    case False
    have "\<forall>ctl. \<not> is_closed ctl \<longrightarrow>
           (case f st ctl of (Normal, st', ctl') \<Rightarrow> g st' ctl' | r \<Rightarrow> r) =
           (c1, st1, ctl\<lparr>enqueued := enqueued ctl @ fs1\<rparr>)"
      using r1 False by (cases c1) simp_all
    then show ?thesis using p1 by blast
  qed
qed

lemma uniform_flushPartial: "uniform flushPartial"
proof (rule uniformI)
  fix st
  show "\<exists>c st' fs. list_all (\<lambda>fr. \<not> is_terminal fr) fs \<and>
        (\<forall>ctl. \<not> is_closed ctl \<longrightarrow> flushPartial st ctl = (c, st', ctl\<lparr>enqueued := enqueued ctl @ fs\<rparr>))"
  proof (cases "collectReplies (aggregated st) = [] \<or> collectReplies (aggregated st) = lastSent st")
    case True
    then have "list_all (\<lambda>fr. \<not> is_terminal fr) [] \<and>
        (\<forall>ctl. \<not> is_closed ctl \<longrightarrow> flushPartial st ctl = (Normal, st, ctl\<lparr>enqueued := enqueued ctl @ []\<rparr>))"
      by (simp add: flushPartial_open)
    then show ?thesis by blast
  next
    case False
    then have "list_all (\<lambda>fr. \<not> is_terminal fr) [PartialFrame (collectReplies (aggregated st))] \<and>
        (\<forall>ctl. \<not> is_closed ctl \<longrightarrow> flushPartial st ctl =
           (Normal, st\<lparr>lastSent := collectReplies (aggregated st)\<rparr>,
            ctl\<lparr>enqueued := enqueued ctl @ [PartialFrame (collectReplies (aggregated st))]\<rparr>))"
      by (simp add: flushPartial_open)
    then show ?thesis by blast
  qed
qed

lemma uniform_pre: "uniform f \<Longrightarrow> uniform (\<lambda>st ctl. f (h st) ctl)"
  unfolding uniform_def by blast

lemma uniform_handle_line: "uniform (handle_line rawLine)"
proof -
  let ?line = "trim rawLine"
  let ?data = "trim (drop 5 ?line)"
  consider (skip) "\<not> prefix (ascii ''data:'') ?line \<or> ?data = [] \<or> ?data = ascii ''[DONE]''
        \<or> JSON_parse ?data = None \<or> (\<exists>p. JSON_parse ?data = Some p \<and> extractDeltaText p = [])"
    | (flush) p where "prefix (ascii ''data:'') ?line" "?data \<noteq> []" "?data \<noteq> ascii ''[DONE]''"
        "JSON_parse ?data = Some p" "extractDeltaText p \<noteq> []"
    by (cases "JSON_parse ?data") auto
  then show ?thesis
  proof cases
    case skip
    then have "handle_line rawLine = (\<lambda>st ctl. (Normal, st, ctl))"
      by (intro ext) (auto simp: handle_line_def Let_def split: option.splits)
    then show ?thesis by (simp add: uniform_skip)
  next
    case flush
    then have "handle_line rawLine = (\<lambda>st ctl. flushPartial (st\<lparr>aggregated := aggregated st @ extractDeltaText p\<rparr>) ctl)"
      by (intro ext) (simp add: handle_line_def Let_def)
    then show ?thesis using uniform_pre [OF uniform_flushPartial] by simp
  qed
qed

lemma uniform_handle_lines: "uniform (handle_lines ls)"
proof (induction ls)
  case Nil
  have "handle_lines [] = (\<lambda>st ctl. (Normal, st, ctl))" by (intro ext) simp
  then show ?case by (simp add: uniform_skip)
next
  case (Cons l ls)
  have "handle_lines (l # ls) =
        (\<lambda>st ctl. case handle_line l st ctl of (Normal, st', ctl') \<Rightarrow> handle_lines ls st' ctl' | r \<Rightarrow> r)"
    by (intro ext) simp
  then show ?case using uniform_seq [OF uniform_handle_line Cons.IH] by simp
qed

lemma uniform_handle_events: "uniform (handle_events es)"
proof (induction es)
  case Nil
  have "handle_events [] = (\<lambda>st ctl. (Normal, st, ctl))" by (intro ext) simp
  then show ?case by (simp add: uniform_skip)
next
  case (Cons e es)
  have "handle_events (e # es) =
        (\<lambda>st ctl. case handle_lines (split_lf [] e) st ctl of (Normal, st', ctl') \<Rightarrow> handle_events es st' ctl' | r \<Rightarrow> r)"
    by (intro ext) simp
  then show ?case using uniform_seq [OF uniform_handle_lines Cons.IH] by simp
qed

lemma uniform_thrown: "uniform (\<lambda>st ctl. (Thrown, st, ctl))"
proof (rule uniformI)
  fix st :: stream_state
  have "list_all (\<lambda>fr. \<not> is_terminal fr) [] \<and>
        (\<forall>ctl. \<not> is_closed ctl \<longrightarrow> (Thrown, st, ctl) = (Thrown, st, ctl\<lparr>enqueued := enqueued ctl @ []\<rparr>))"
    by simp
  then show "\<exists>c st' fs. list_all (\<lambda>fr. \<not> is_terminal fr) fs \<and>
        (\<forall>ctl. \<not> is_closed ctl \<longrightarrow> (Thrown, st, ctl) = (c, st', ctl\<lparr>enqueued := enqueued ctl @ fs\<rparr>))"
    by blast
qed

lemma uniform_chunk:
  "uniform (\<lambda>st ctl. handle_events (butlast (split_lflf [] (buffer st @ chunk)))
                       (st\<lparr>buffer := last (split_lflf [] (buffer st @ chunk))\<rparr>) ctl)"
proof (rule uniformI)
  fix st
  from uniform_handle_events [of "butlast (split_lflf [] (buffer st @ chunk))"]
  show "\<exists>c st' fs. list_all (\<lambda>fr. \<not> is_terminal fr) fs \<and>
        (\<forall>ctl. \<not> is_closed ctl \<longrightarrow>
           handle_events (butlast (split_lflf [] (buffer st @ chunk)))
             (st\<lparr>buffer := last (split_lflf [] (buffer st @ chunk))\<rparr>) ctl =
           (c, st', ctl\<lparr>enqueued := enqueued ctl @ fs\<rparr>))"
    unfolding uniform_def by blast
qed

lemma uniform_read_loop: "uniform (read_loop reads)"
proof (induction reads)
  case Nil
  have "read_loop [] = (\<lambda>st ctl. (Normal, st, ctl))" by (intro ext) simp
  then show ?case by (simp add: uniform_skip)
next
  case (Cons r reads)
  show ?case
  proof (cases r)
    case ReadError
    then have "read_loop (r # reads) = (\<lambda>st ctl. (Thrown, st, ctl))" by (intro ext) simp
    then show ?thesis by (simp add: uniform_thrown)
  next
    case (Chunk chunk)
    then have "read_loop (r # reads) =
        (\<lambda>st ctl. case handle_events (butlast (split_lflf [] (buffer st @ chunk)))
                       (st\<lparr>buffer := last (split_lflf [] (buffer st @ chunk))\<rparr>) ctl of
                     (Normal, st', ctl') \<Rightarrow> read_loop reads st' ctl' | r \<Rightarrow> r)"
      by (intro ext) (simp add: Let_def)
    then show ?thesis using uniform_seq [OF uniform_chunk Cons.IH] by simp
  qed
qed

lemma read_loop_outcome:
  assumes "\<not> is_closed ctl"
  shows "\<exists>st' fs. list_all (\<lambda>fr. \<not> is_terminal fr) fs \<and>
     read_loop reads \<lparr>buffer = [], aggregated = [], lastSent = []\<rparr> ctl =
       (fst (stream_outcome reads), st', ctl\<lparr>enqueued := enqueued ctl @ fs\<rparr>) \<and>
     aggregated st' = snd (stream_outcome reads)"
proof -
  let ?init = "\<lparr>buffer = [], aggregated = [], lastSent = []\<rparr>"
  from uniform_read_loop [of reads] obtain c st' fs where p: "list_all (\<lambda>fr. \<not> is_terminal fr) fs"
    and r': "\<forall>ctl. \<not> is_closed ctl \<longrightarrow> read_loop reads ?init ctl = (c, st', ctl\<lparr>enqueued := enqueued ctl @ fs\<rparr>)"
    unfolding uniform_def by blast
  note r = r' [rule_format]
  have "read_loop reads ?init \<lparr>enqueued = [], is_closed = False\<rparr> =
        (c, st', \<lparr>enqueued = [], is_closed = False\<rparr>\<lparr>enqueued := enqueued \<lparr>enqueued = [], is_closed = False\<rparr> @ fs\<rparr>)"
    by (rule r) simp
  then have "stream_outcome reads = (c, aggregated st')" by (simp add: stream_outcome_def)
  then show ?thesis using p r [OF assms] by auto
qed


lemma extractErrorMessage_nonempty: "extractErrorMessage payload \<noteq> []"
proof -
  have d: "REQUEST_FAILED_MESSAGE \<noteq> []" by (simp add: REQUEST_FAILED_MESSAGE_def)
  have a: "(if trim x \<noteq> [] then Some (trim x) else None) = Some m \<Longrightarrow> m \<noteq> []" for x m :: jsstring
    by (auto split: if_splits)
  show ?thesis
    unfolding extractErrorMessage_def Let_def using d
    by (auto split: json.splits option.splits if_splits)
qed

lemma failure_of_Some:
  assumes "failure_of cand = Some r"
  shows "message r \<noteq> []" and "model r = fst cand"
proof -
  obtain m fetched where c: "cand = (m, fetched)" by (cases cand)
  have e: "EMPTY_RESPONSE_MESSAGE \<noteq> []" "NO_ANSWER_MESSAGE \<noteq> []"
    by (simp_all add: EMPTY_RESPONSE_MESSAGE_def NO_ANSWER_MESSAGE_def)
  show "message r \<noteq> []"
    using assms c e extractErrorMessage_nonempty
    by (cases fetched) (auto split: if_splits option.splits prod.splits completion.splits)
  show "model r = fst cand"
    using assms c
    by (cases fetched) (auto split: if_splits option.splits prod.splits completion.splits)
qed

lemma join_nonempty: "x \<noteq> [] \<Longrightarrow> join sep (x # xs) \<noteq> []"
  by (cases xs) simp_all

lemma exhausted_open:
  assumes "\<not> is_closed ctl" and "\<forall>e\<in>set errors. message e \<noteq> []"
  shows "exhausted errors ctl =
    (Normal,
     ctl\<lparr>enqueued := enqueued ctl @
           [ErrorFrame
              (case errors of
                 [] \<Rightarrow> REQUEST_FAILED_MESSAGE
               | first # others \<Rightarrow>
                   join SEPARATOR (message first # map (\<lambda>e. model e @ ascii '': '' @ message e) others))
              (case errors of [] \<Rightarrow> 502 | first # others \<Rightarrow> status first)],
         is_closed := True\<rparr>)"
proof (cases errors)
  case Nil
  then show ?thesis using assms(1) by (simp add: exhausted_def closeWithError_open)
next
  case (Cons first others)
  have f: "filter (\<lambda>part. part \<noteq> []) (message first # map (\<lambda>e. model e @ ascii '': '' @ message e) others) =
           message first # map (\<lambda>e. model e @ ascii '': '' @ message e) others"
    using assms(2) Cons by (simp add: filter_id_conv ascii_def)
  have n: "join SEPARATOR (message first # map (\<lambda>e. model e @ ascii '': '' @ message e) others) \<noteq> []"
    using assms(2) Cons by (intro join_nonempty) simp
  show ?thesis
    unfolding exhausted_def Cons list.case Let_def f using n assms(1)
    by (simp add: closeWithError_open)
qed

lemma run_models_all_fail:
  "\<not> is_closed ctl \<Longrightarrow> list_all (\<lambda>c. failure_of c \<noteq> None) cands \<Longrightarrow>
   \<exists>fs. list_all (\<lambda>fr. \<not> is_terminal fr) fs \<and>
     run_models errors cands ctl =
       exhausted (errors @ List.map_filter failure_of cands) (ctl\<lparr>enqueued := enqueued ctl @ fs\<rparr>)"
proof (induction cands arbitrary: errors ctl)
  case Nil
  have "list_all (\<lambda>fr. \<not> is_terminal fr) [] \<and>
     run_models errors [] ctl = exhausted (errors @ List.map_filter failure_of []) (ctl\<lparr>enqueued := enqueued ctl @ []\<rparr>)"
    by (simp add: map_filter_simps)
  then show ?case by blast
next
  case (Cons cand rest)
  obtain m fetched where cand: "cand = (m, fetched)" by (cases cand)
  from Cons.prems(2) obtain r where r: "failure_of cand = Some r" and restf: "list_all (\<lambda>c. failure_of c \<noteq> None) rest"
    by auto
  let ?ctl1 = "ctl\<lparr>enqueued := enqueued ctl @ [ModelFrame m]\<rparr>"
  have op1: "\<not> is_closed ?ctl1" using Cons.prems(1) by simp
  have s1: "send (ModelFrame m) ctl = (Normal, ?ctl1)" using Cons.prems(1) by (rule send_open)
  have mf: "List.map_filter failure_of (cand # rest) = r # List.map_filter failure_of rest"
    using r by (simp add: map_filter_simps)
  obtain st payload body where fe: "fetched = Response st payload body"
    using r cand by (cases fetched) auto
  have "\<exists>fs1 ctl2. list_all (\<lambda>fr. \<not> is_terminal fr) fs1 \<and> ctl2 = ctl\<lparr>enqueued := enqueued ctl @ fs1\<rparr> \<and>
          run_models errors (cand # rest) ctl = run_models (errors @ [r]) rest ctl2"
  proof (cases "response_ok st")
    case False
    then have sr: "shouldRetry st (extractErrorMessage payload)"
      and rv: "r = \<lparr>model = m, status = st, message = extractErrorMessage payload\<rparr>"
      using r cand fe by (auto split: if_splits)
    have "run_models errors (cand # rest) ctl = run_models (errors @ [r]) rest ?ctl1"
      using cand fe False sr rv s1 by (simp add: Let_def)
    moreover have "list_all (\<lambda>fr. \<not> is_terminal fr) [ModelFrame m]" by simp
    ultimately show ?thesis by blast
  next
    case True
    show ?thesis
    proof (cases body)
      case None
      then have rv: "r = \<lparr>model = m, status = 502, message = EMPTY_RESPONSE_MESSAGE\<rparr>"
        using r cand fe True by simp
      have "run_models errors (cand # rest) ctl = run_models (errors @ [r]) rest ?ctl1"
        using cand fe True None rv s1 by simp
      moreover have "list_all (\<lambda>fr. \<not> is_terminal fr) [ModelFrame m]" by simp
      ultimately show ?thesis by blast
    next
      case (Some reads)
      then have so: "fst (stream_outcome reads) = Normal"
        and em: "collectReplies (trim (snd (stream_outcome reads))) = []"
        and rv: "r = \<lparr>model = m, status = 502, message = NO_ANSWER_MESSAGE\<rparr>"
        using r cand fe True by (auto split: prod.splits completion.splits if_splits)
      from read_loop_outcome [OF op1, of reads] obtain st' fs where
        p: "list_all (\<lambda>fr. \<not> is_terminal fr) fs"
        and rl: "read_loop reads \<lparr>buffer = [], aggregated = [], lastSent = []\<rparr> ?ctl1 =
                  (fst (stream_outcome reads), st', ?ctl1\<lparr>enqueued := enqueued ?ctl1 @ fs\<rparr>)"
        and ag: "aggregated st' = snd (stream_outcome reads)"
        by blast
      have "run_models errors (cand # rest) ctl =
            run_models (errors @ [r]) rest (?ctl1\<lparr>enqueued := enqueued ?ctl1 @ fs\<rparr>)"
        using cand fe True Some rv s1 rl so em ag by (simp add: Let_def)
      moreover have "?ctl1\<lparr>enqueued := enqueued ?ctl1 @ fs\<rparr> = ctl\<lparr>enqueued := enqueued ctl @ (ModelFrame m # fs)\<rparr>"
        by simp
      moreover have "list_all (\<lambda>fr. \<not> is_terminal fr) (ModelFrame m # fs)" using p by simp
      ultimately show ?thesis by metis
    qed
  qed
  then obtain fs1 ctl2 where p1: "list_all (\<lambda>fr. \<not> is_terminal fr) fs1"
    and c2: "ctl2 = ctl\<lparr>enqueued := enqueued ctl @ fs1\<rparr>"
    and step: "run_models errors (cand # rest) ctl = run_models (errors @ [r]) rest ctl2"
    by blast
  have op2: "\<not> is_closed ctl2" using c2 Cons.prems(1) by simp
  from Cons.IH [OF op2 restf, of "errors @ [r]"] obtain fs2 where
    p2: "list_all (\<lambda>fr. \<not> is_terminal fr) fs2"
    and ih: "run_models (errors @ [r]) rest ctl2 =
             exhausted ((errors @ [r]) @ List.map_filter failure_of rest) (ctl2\<lparr>enqueued := enqueued ctl2 @ fs2\<rparr>)"
    by blast
  have "run_models errors (cand # rest) ctl =
        exhausted (errors @ List.map_filter failure_of (cand # rest)) (ctl\<lparr>enqueued := enqueued ctl @ (fs1 @ fs2)\<rparr>)"
    using step ih c2 mf by simp
  moreover have "list_all (\<lambda>fr. \<not> is_terminal fr) (fs1 @ fs2)" using p1 p2 by simp
  ultimately show ?case by blast
qed

lemma map_filter_all_Some:
  "list_all (\<lambda>c. failure_of c \<noteq> None) cands \<Longrightarrow>
   length (List.map_filter failure_of cands) = length cands \<and>
   map model (List.map_filter failure_of cands) = map fst cands \<and>
   (\<forall>e\<in>set (List.map_filter failure_of cands). message e \<noteq> [])"
proof (induction cands)
  case Nil
  then show ?case by (simp add: map_filter_simps)
next
  case (Cons c cands)
  then obtain r where r: "failure_of c = Some r" by auto
  from failure_of_Some [OF r] Cons r show ?case by (simp add: map_filter_simps)
qed

lemma stream_start_all_fail:
  assumes "list_all (\<lambda>cand. failure_of cand \<noteq> None) candidates"
  shows "\<exists>pre. list_all (\<lambda>fr. \<not> is_terminal fr) pre \<and>
     stream_start candidates =
       (Normal,
        \<lparr>enqueued = pre @
           [ErrorFrame
              (case List.map_filter failure_of candidates of
                 [] \<Rightarrow> REQUEST_FAILED_MESSAGE
               | first # others \<Rightarrow>
                   join SEPARATOR (message first # map (\<lambda>e. model e @ ascii '': '' @ message e) others))
              (case List.map_filter failure_of candidates of [] \<Rightarrow> 502 | first # others \<Rightarrow> status first)],
         is_closed = True\<rparr>)"
proof -
  let ?c0 = "\<lparr>enqueued = [], is_closed = False\<rparr>"
  have op: "\<not> is_closed ?c0" by simp
  from run_models_all_fail [OF op assms, of "[]"] obtain fs where
    p: "list_all (\<lambda>fr. \<not> is_terminal fr) fs"
    and r: "run_models [] candidates ?c0 =
            exhausted ([] @ List.map_filter failure_of candidates) (?c0\<lparr>enqueued := enqueued ?c0 @ fs\<rparr>)"
    by blast
  have nonempty: "\<forall>e\<in>set (List.map_filter failure_of candidates). message e \<noteq> []"
    using map_filter_all_Some [OF assms] by simp
  have op2: "\<not> is_closed (?c0\<lparr>enqueued := enqueued ?c0 @ fs\<rparr>)" by simp
  have "stream_start candidates = exhausted (List.map_filter failure_of candidates) (?c0\<lparr>enqueued := enqueued ?c0 @ fs\<rparr>)"
    using r exhausted_open [OF op2 nonempty] by (simp add: stream_start_def)
  then show ?thesis using exhausted_open [OF op2 nonempty] p by auto
qed


text \<open>
  C9: if every candidate fails in a way that lets the loop go on, the request ends with
  one \<open>error\<close> frame behind the \<open>model\<close> and \<open>partial\<close> frames. There is one failure
  record per candidate, in order, each with its candidate's name. The frame's message is
  the first record's message followed, for each later record, by the separator and
  \<open>model: message\<close>; its status is the first record's status. With no candidate, and so
  no record, the status is 502 and the message the default one.
\<close>

theorem exhaustion_error_frame:
  "list_all (\<lambda>cand. failure_of cand \<noteq> None) candidates \<longrightarrow>
     length (List.map_filter failure_of candidates) = length candidates \<and>
     map model (List.map_filter failure_of candidates) = map fst candidates \<and>
     (\<exists>pre. list_all (\<lambda>fr. \<not> is_terminal fr) pre \<and>
        stream_start candidates =
          (Normal,
           \<lparr>enqueued = pre @
              [ErrorFrame
                 (case List.map_filter failure_of candidates of
                    [] \<Rightarrow> REQUEST_FAILED_MESSAGE
                  | first # others \<Rightarrow>
                      join SEPARATOR
                        (message first # map (\<lambda>e. model e @ ascii '': '' @ message e) others))
                 (case List.map_filter failure_of candidates of
                    [] \<Rightarrow> 502
                  | first # others \<Rightarrow> status first)],
            is_closed = True\<rparr>))"
  using stream_start_all_fail [of candidates] map_filter_all_Some [of candidates] by blast

lemma example_failures:
  "List.map_filter failure_of [(ascii ''m1'', Response 503 JNull None), (ascii ''m2'', Response 200 JNull None)] =
     [\<lparr>model = ascii ''m1'', status = 503, message = REQUEST_FAILED_MESSAGE\<rparr>,
      \<lparr>model = ascii ''m2'', status = 502, message = EMPTY_RESPONSE_MESSAGE\<rparr>]"
  by (simp add: map_filter_simps response_ok_def shouldRetry_def extractErrorMessage_def)

theorem exhaustion_error_frame_witness:
  "list_all (\<lambda>cand. failure_of cand \<noteq> None) [(ascii ''m1'', Response 503 JNull None), (ascii ''m2'', Response 200 JNull None)]
   \<and> (\<exists>pre. list_all (\<lambda>fr. \<not> is_terminal fr) pre \<and>
        stream_start [(ascii ''m1'', Response 503 JNull None), (ascii ''m2'', Response 200 JNull None)] =
          (Normal,
           \<lparr>enqueued = pre @
              [ErrorFrame (REQUEST_FAILED_MESSAGE @ SEPARATOR @ ascii ''m2'' @ ascii '': '' @ EMPTY_RESPONSE_MESSAGE) 503],
            is_closed = True\<rparr>))
   \<and> (\<exists>pre. stream_start [] =
          (Normal, \<lparr>enqueued = pre @ [ErrorFrame REQUEST_FAILED_MESSAGE 502], is_closed = True\<rparr>))"
proof -
  have h: "list_all (\<lambda>cand. failure_of cand \<noteq> None) [(ascii ''m1'', Response 503 JNull None), (ascii ''m2'', Response 200 JNull None)]"
    by (simp add: response_ok_def shouldRetry_def)
  have e: "list_all (\<lambda>cand. failure_of cand \<noteq> None) []" by simp
  have n: "List.map_filter failure_of [] = []" by (simp add: map_filter_simps)
  from exhaustion_error_frame [of "[(ascii ''m1'', Response 503 JNull None), (ascii ''m2'', Response 200 JNull None)]"] h
  have "\<exists>pre. list_all (\<lambda>fr. \<not> is_terminal fr) pre \<and>
        stream_start [(ascii ''m1'', Response 503 JNull None), (ascii ''m2'', Response 200 JNull None)] =
          (Normal,
           \<lparr>enqueued = pre @
              [ErrorFrame
                 (case List.map_filter failure_of [(ascii ''m1'', Response 503 JNull None), (ascii ''m2'', Response 200 JNull None)] of
                    [] \<Rightarrow> REQUEST_FAILED_MESSAGE
                  | first # others \<Rightarrow>
                      join SEPARATOR
                        (message first # map (\<lambda>e. model e @ ascii '': '' @ message e) others))
                 (case List.map_filter failure_of [(ascii ''m1'', Response 503 JNull None), (ascii ''m2'', Response 200 JNull None)] of
                    [] \<Rightarrow> 502
                  | first # others \<Rightarrow> status first)],
            is_closed = True\<rparr>)"
    by blast
  then have a: "\<exists>pre. list_all (\<lambda>fr. \<not> is_terminal fr) pre \<and>
        stream_start [(ascii ''m1'', Response 503 JNull None), (ascii ''m2'', Response 200 JNull None)] =
          (Normal,
           \<lparr>enqueued = pre @
              [ErrorFrame (REQUEST_FAILED_MESSAGE @ SEPARATOR @ ascii ''m2'' @ ascii '': '' @ EMPTY_RESPONSE_MESSAGE) 503],
            is_closed = True\<rparr>)"
    unfolding example_failures by simp
  from exhaustion_error_frame [of "[]"] e
  have "\<exists>pre. list_all (\<lambda>fr. \<not> is_terminal fr) pre \<and>
        stream_start [] =
          (Normal,
           \<lparr>enqueued = pre @
              [ErrorFrame
                 (case List.map_filter failure_of [] of
                    [] \<Rightarrow> REQUEST_FAILED_MESSAGE
                  | first # others \<Rightarrow>
                      join SEPARATOR
                        (message first # map (\<lambda>e. model e @ ascii '': '' @ message e) others))
                 (case List.map_filter failure_of [] of
                    [] \<Rightarrow> 502
                  | first # others \<Rightarrow> status first)],
            is_closed = True\<rparr>)"
    by blast
  then have b: "\<exists>pre. stream_start [] =
          (Normal, \<lparr>enqueued = pre @ [ErrorFrame REQUEST_FAILED_MESSAGE 502], is_closed = True\<rparr>)"
    unfolding n by auto
  show ?thesis using h a b by blast
qed


text \<open>
  C9, the other ways to fail. The first candidate answers 503 and leaves a failure
  record; the second candidate's \<open>fetch\<close> rejects. Every candidate has failed, and the
  \<open>error\<close> frame is the one of the \<open>catch\<close> block, with status 500 and the generic message,
  not the first record's message with status 503. When the second candidate answers 401
  instead, with a message that asks for no retry, the request ends with that message and
  status 401.
\<close>

theorem exhaustion_thrown_counterexample:
  "stream_start [(ascii ''m1'', Response 503 JNull None), (ascii ''m2'', FetchError)] =
     (Normal,
      \<lparr>enqueued = [ModelFrame (ascii ''m1''), ModelFrame (ascii ''m2''),
                   ErrorFrame SERVICE_UNAVAILABLE_MESSAGE 500],
       is_closed = True\<rparr>)
   \<and> \<not> response_ok 503 \<and> shouldRetry 503 (extractErrorMessage JNull)
   \<and> extractErrorMessage JNull = REQUEST_FAILED_MESSAGE
   \<and> ErrorFrame SERVICE_UNAVAILABLE_MESSAGE 500 \<noteq> ErrorFrame REQUEST_FAILED_MESSAGE 503
   \<and> stream_start [(ascii ''m1'', Response 503 JNull None), (ascii ''m2'', Response 401 JNull None)] =
     (Returned,
      \<lparr>enqueued = [ModelFrame (ascii ''m1''), ModelFrame (ascii ''m2''),
                   ErrorFrame REQUEST_FAILED_MESSAGE 401],
       is_closed = True\<rparr>)
   \<and> \<not> response_ok 401 \<and> \<not> shouldRetry 401 (extractErrorMessage JNull)"
  by (simp add: stream_start_def send_def close_def closeWithError_def response_ok_def
        shouldRetry_def extractErrorMessage_def Let_def REQUEST_FAILED_MESSAGE_def
        SERVICE_UNAVAILABLE_MESSAGE_def toLowerCase_def lower_unit_def ascii_def)
subsection \<open>Running the extractor on its own result\<close>

lemma parse_members_object:
  "parse_members n acc s = Some (v, r) \<Longrightarrow> \<exists>ms. v = JObject ms"
proof (induction n arbitrary: acc s)
  case 0
  then show ?case by simp
next
  case (Suc n)
  from Suc.prems show ?case
    by (auto split: list.splits option.splits if_splits prod.splits dest: Suc.IH)
qed

lemma skip_ws_hd_in: "skip_ws s = c # cs \<Longrightarrow> c \<in> set s"
  unfolding skip_ws_def by (metis list.set_intros(1) set_dropWhileD)

lemma parse_value_array:
  assumes "parse_value n s = Some (JArray xs, r)"
  shows "91 \<in> set s"
proof (cases n)
  case 0
  then show ?thesis using assms by simp
next
  case (Suc m)
  obtain c cs where sk: "skip_ws s = c # cs"
    using assms Suc by (cases "skip_ws s") simp_all
  show ?thesis
  proof (cases "c = 91")
    case True
    then show ?thesis using skip_ws_hd_in [OF sk] by simp
  next
    case False
    have "parse_value (Suc m) s \<noteq> Some (JArray xs, r)"
      using sk False
      by (auto split: list.splits option.splits if_splits prod.splits dest: parse_members_object)
    then show ?thesis using assms Suc by simp
  qed
qed

lemma tryParseJsonArray_no_bracket: "91 \<notin> set s \<Longrightarrow> tryParseJsonArray s = []"
proof -
  assume n: "91 \<notin> set s"
  have "JSON_parse s \<noteq> Some (JArray xs)" for xs
    using n parse_value_array [of "2 * length s + 2" s xs]
    by (auto simp: JSON_parse_def split: option.splits prod.splits if_splits)
  then show ?thesis
    by (auto simp: tryParseJsonArray_def split: option.splits json.splits)
qed

lemma extract_no_bracket: "91 \<notin> set s \<Longrightarrow> extractJsonArrayFromText s = None"
  by (simp add: extractJsonArrayFromText_def indexOf_def)


lemma trim_ends:
  "trim s = [] \<or> (\<not> is_ws (hd (trim s)) \<and> \<not> is_ws (last (trim s)))"
proof (cases "trim s = []")
  case True
  then show ?thesis by simp
next
  case False
  define a where "a = dropWhile is_ws s"
  define b where "b = dropWhile is_ws (rev a)"
  have t: "trim s = rev b" by (simp add: trim_def a_def b_def)
  have bne: "b \<noteq> []" using False t by simp
  have hb: "\<not> is_ws (hd b)" using bne unfolding b_def by (rule hd_dropWhile)
  have ane: "a \<noteq> []" using bne unfolding b_def by auto
  have ha: "\<not> is_ws (hd a)" using ane unfolding a_def by (rule hd_dropWhile)
  have "rev a = takeWhile is_ws (rev a) @ b" by (simp add: b_def)
  then have "last (rev a) = last b" using bne by (metis last_appendR)
  then have lb: "last b = hd a" using ane by (simp add: last_rev)
  show ?thesis using t bne hb ha lb by (simp add: hd_rev last_rev)
qed

lemma trim_id:
  assumes "s \<noteq> []" and "\<not> is_ws (hd s)" and "\<not> is_ws (last s)"
  shows "trim s = s"
proof -
  have a: "dropWhile is_ws s = s" using assms(2) by (simp add: dropWhile_eq_self_iff)
  have "hd (rev s) = last s" using assms(1) by (simp add: hd_rev)
  then have b: "dropWhile is_ws (rev s) = rev s" using assms(3) by (simp add: dropWhile_eq_self_iff)
  show ?thesis by (simp add: trim_def a b)
qed

lemma trim_Nil: "trim [] = []"
  by (simp add: trim_def)

lemma trim_idem: "trim (trim s) = trim s"
  using trim_ends [of s] trim_id [of "trim s"] by (cases "trim s = []") (auto simp: trim_Nil)

lemma set_trim: "set (trim s) \<subseteq> set s"
proof -
  have "set (trim s) = set (dropWhile is_ws (rev (dropWhile is_ws s)))" by (simp add: trim_def)
  also have "\<dots> \<subseteq> set (rev (dropWhile is_ws s))" by (auto dest: set_dropWhileD)
  also have "\<dots> \<subseteq> set s" by (auto dest: set_dropWhileD)
  finally show ?thesis .
qed

lemma set_strip_markers: "set (strip_markers l) \<subseteq> set l"
  unfolding strip_markers_def using set_trim [of "dropWhile is_marker l"] by (auto dest: set_dropWhileD)

lemma is_ws_marker: "is_ws c \<Longrightarrow> is_marker c"
  by (simp add: is_marker_def)

lemma strip_markers_ends:
  "strip_markers l = [] \<or> (\<not> is_marker (hd (strip_markers l)) \<and> \<not> is_ws (last (strip_markers l)))"
proof (cases "strip_markers l = []")
  case True
  then show ?thesis by simp
next
  case False
  define d where "d = dropWhile is_marker l"
  have "trim d \<noteq> []" using False by (simp add: strip_markers_def d_def)
  then have dne: "d \<noteq> []" using trim_Nil by auto
  have hd_d: "\<not> is_marker (hd d)" using dne unfolding d_def by (rule hd_dropWhile)
  then have nws: "\<not> is_ws (hd d)" using is_ws_marker by blast
  have dw: "dropWhile is_ws d = d" using nws by (simp add: dropWhile_eq_self_iff)
  have t: "strip_markers l = rev (dropWhile is_ws (rev d))" by (simp add: strip_markers_def trim_def d_def [symmetric] dw)
  define b where "b = dropWhile is_ws (rev d)"
  have bne: "b \<noteq> []" using False t by (simp add: b_def)
  have "rev d = takeWhile is_ws (rev d) @ b" by (simp add: b_def)
  then have "last (rev d) = last b" using bne by (metis last_appendR)
  then have "last b = hd d" using dne by (simp add: last_rev)
  then have "hd (strip_markers l) = hd d" using t bne by (simp add: b_def [symmetric] hd_rev)
  moreover have "\<not> is_ws (last (strip_markers l))"
    using trim_ends [of "dropWhile is_marker l"] False by (simp add: strip_markers_def)
  ultimately show ?thesis using hd_d by simp
qed

lemma strip_markers_id:
  assumes "r \<noteq> []" and "\<not> is_marker (hd r)" and "\<not> is_ws (last r)"
  shows "strip_markers r = r"
proof -
  have "dropWhile is_marker r = r" using assms(2) by (simp add: dropWhile_eq_self_iff)
  moreover have "\<not> is_ws (hd r)" using assms(2) is_ws_marker by blast
  ultimately show ?thesis using trim_id [OF assms(1) _ assms(3)] by (simp add: strip_markers_def)
qed

lemma strip_markers_idem: "strip_markers (strip_markers l) = strip_markers l"
  using strip_markers_ends [of l] strip_markers_id [of "strip_markers l"]
  by (cases "strip_markers l = []") (auto simp: strip_markers_def trim_Nil)

lemma split_lf_runs_no_lf:
  "l \<in> set (split_lf_runs b cur s) \<Longrightarrow> 10 \<notin> set cur \<Longrightarrow> 10 \<notin> set l"
proof (induction s arbitrary: b cur)
  case Nil
  then show ?case by simp
next
  case (Cons c s)
  show ?case
  proof (cases "c = 10")
    case True
    then have "l = cur \<or> l \<in> set (split_lf_runs True [] s)"
      using Cons.prems(1) by (auto split: if_splits)
    then show ?thesis using Cons.prems(2) Cons.IH [of True "[]"] by auto
  next
    case False
    then have "l \<in> set (split_lf_runs False (cur @ [c]) s)" using Cons.prems(1) by simp
    moreover have "10 \<notin> set (cur @ [c])" using False Cons.prems(2) by simp
    ultimately show ?thesis by (rule Cons.IH)
  qed
qed

lemma split_lf_runs_append:
  "10 \<notin> set r \<Longrightarrow> split_lf_runs False cur (r @ rest) = split_lf_runs False (cur @ r) rest"
  by (induction r arbitrary: cur) auto

lemma split_lf_runs_start:
  "s \<noteq> [] \<Longrightarrow> hd s \<noteq> 10 \<Longrightarrow> split_lf_runs True [] s = split_lf_runs False [] s"
  by (cases s) auto

lemma join_Cons: "join sep (x # xs) = x @ (if xs = [] then [] else sep @ join sep xs)"
  by (cases xs) simp_all

lemma hd_join: "x \<noteq> [] \<Longrightarrow> hd (join sep (x # xs)) = hd x"
  by (simp add: join_Cons)

lemma join_nonempty_hd: "x \<noteq> [] \<Longrightarrow> join sep (x # xs) \<noteq> []"
  by (simp add: join_Cons)

lemma last_join:
  "xs \<noteq> [] \<Longrightarrow> \<forall>x\<in>set xs. x \<noteq> [] \<Longrightarrow> last (join sep xs) = last (last xs)"
proof (induction xs)
  case Nil
  then show ?case by simp
next
  case (Cons x xs)
  show ?case
  proof (cases xs)
    case Nil
    then show ?thesis by simp
  next
    case (Cons y ys)
    then have "join sep xs \<noteq> []" using Cons.prems(2) by (simp add: join_Cons)
    then show ?thesis using Cons Cons.IH Cons.prems by (simp add: join_Cons)
  qed
qed

lemma set_join: "set (join sep xs) \<subseteq> set sep \<union> \<Union> (set ` set xs)"
  by (induction xs rule: join.induct) auto

lemma split_join:
  "\<forall>r\<in>set (x # xs). r \<noteq> [] \<and> 10 \<notin> set r \<Longrightarrow>
   split_lf_runs False cur (join [10] (x # xs)) = (cur @ x) # xs"
proof (induction xs arbitrary: x cur)
  case Nil
  then show ?case using split_lf_runs_append [of x cur "[]"] by simp
next
  case (Cons y ys)
  have x: "10 \<notin> set x" and y: "y \<noteq> []" "10 \<notin> set y" using Cons.prems by simp_all
  have jne: "join [10] (y # ys) \<noteq> []" using y(1) by (rule join_nonempty_hd)
  have jhd: "hd (join [10] (y # ys)) \<noteq> 10" using y hd_join [OF y(1), of "[10]" ys] by (cases y) auto
  have "split_lf_runs False cur (join [10] (x # y # ys)) =
        split_lf_runs False (cur @ x) (10 # join [10] (y # ys))"
    using split_lf_runs_append [OF x, of cur "10 # join [10] (y # ys)"] by simp
  also have "\<dots> = (cur @ x) # split_lf_runs True [] (join [10] (y # ys))" by simp
  also have "split_lf_runs True [] (join [10] (y # ys)) = split_lf_runs False [] (join [10] (y # ys))"
    using jne jhd by (rule split_lf_runs_start)
  also have "\<dots> = y # ys" using Cons.IH [of y "[]"] Cons.prems by simp
  finally show ?case .
qed


lemma isLikelyReply_nonempty: "isLikelyReply r \<Longrightarrow> r \<noteq> []"
  by (auto simp: isLikelyReply_def)

lemma collectReplies_Nil: "collectReplies [] = []"
  by (simp add: collectReplies_def sanitizeContent_def tryParseJsonArray_def
      extractJsonArrayFromText_def fallbackSplit_def)

lemma collectReplies_join:
  assumes len: "length out \<le> 3" and re: "\<forall>r\<in>set out. reextractable r"
  shows "collectReplies (join [10] out) = out"
proof (cases out)
  case Nil
  then show ?thesis by (simp add: collectReplies_Nil)
next
  case (Cons x xs)
  let ?j = "join [10] out"
  have ne: "\<forall>r\<in>set out. r \<noteq> []" using re isLikelyReply_nonempty by (auto simp: reextractable_def)
  have xne: "x \<noteq> []" using ne Cons by simp
  have jne: "?j \<noteq> []" unfolding Cons using xne by (rule join_nonempty_hd)
  have sub: "set ?j \<subseteq> set [10] \<union> \<Union> (set ` set out)" by (rule set_join)
  have n60: "60 \<notin> set ?j" and n91: "91 \<notin> set ?j"
    using sub re by (auto simp: reextractable_def)
  have st: "strip_think 0 ?j = ?j" using strip_think_pre [OF n60, of "[]"] by simp
  have ends: "\<not> is_marker (hd r) \<and> \<not> is_ws (last r)" if "r \<in> set out" for r
    using that re ne strip_markers_ends [of r] by (auto simp: reextractable_def)
  have hdj: "\<not> is_ws (hd ?j)"
    unfolding Cons hd_join [OF xne] using ends [of x] Cons is_ws_marker by auto
  have lastj: "\<not> is_ws (last ?j)"
  proof -
    have "last ?j = last (last out)" using last_join [of out "[10]"] ne Cons by simp
    moreover have "last out \<in> set out" using Cons by simp
    ultimately show ?thesis using ends by simp
  qed
  have tr: "trim ?j = ?j" using jne hdj lastj by (rule trim_id)
  have san: "sanitizeContent ?j = ?j" using jne st tr by (simp add: sanitizeContent_def)
  have lines: "split_lf_runs False [] ?j = out"
    unfolding Cons using split_join [of x xs "[]"] re ne Cons by (simp add: reextractable_def)
  have m: "map strip_markers out = out" using re by (simp add: reextractable_def map_idI)
  have f1: "filter (\<lambda>line. 0 < length line) out = out" using ne by (simp add: filter_id_conv)
  have f2: "filter (\<lambda>line. \<not> list_ex (\<lambda>pattern. pattern line) forbiddenPatterns) out = out"
    using re by (simp add: filter_id_conv reextractable_def denylisted_def)
  have f3: "filter (\<lambda>line. \<not> list_ex (\<lambda>keyword. includes_str keyword line) forbiddenKeywords) out = out"
    using re by (simp add: filter_id_conv reextractable_def denylisted_def)
  have f4: "filter isLikelyReply out = out" using re by (simp add: filter_id_conv reextractable_def)
  have fb: "fallbackSplit ?j = out"
    using len by (simp only: fallbackSplit_def jne if_False lines m f1 f2 f3 f4) simp
  show ?thesis
    by (simp add: collectReplies_def Let_def san tryParseJsonArray_no_bracket [OF n91]
        extract_no_bracket [OF n91] fb)
qed

lemma fallbackSplit_reextractable:
  assumes "r \<in> set (fallbackSplit t)" and "91 \<notin> set r" and "60 \<notin> set r"
  shows "reextractable r"
proof -
  from assms(1) have "r \<in> set (filter isLikelyReply (candidate_lines t))"
    unfolding fallbackSplit_candidates by (rule in_set_takeD)
  then have lk: "isLikelyReply r" and cl: "r \<in> set (candidate_lines t)" by simp_all
  from cl obtain l where l: "l \<in> set (split_lf_runs False [] t)" and r: "r = strip_markers l"
    and dn: "\<not> denylisted r"
    by (auto simp: candidate_lines_def)
  have "10 \<notin> set l" using l by (rule split_lf_runs_no_lf) simp
  then have nl: "10 \<notin> set r" using set_strip_markers [of l] r by auto
  have "strip_markers r = r" unfolding r by (rule strip_markers_idem)
  then show ?thesis using nl dn lk assms(2,3) by (simp add: reextractable_def)
qed

lemma collectReplies_rerun:
  assumes "\<forall>r\<in>set (collectReplies raw). reextractable r"
  shows "collectReplies (join [10] (collectReplies raw)) = collectReplies raw"
  using collectReplies_length [of raw] assms by (rule collectReplies_join)

lemma collectReplies_rerun_lines:
  assumes "collectReplies raw = fallbackSplit (sanitizeContent raw)"
    and "\<forall>r\<in>set (collectReplies raw). 91 \<notin> set r \<and> 60 \<notin> set r"
  shows "collectReplies (join [10] (collectReplies raw)) = collectReplies raw"
proof (rule collectReplies_rerun)
  show "\<forall>r\<in>set (collectReplies raw). reextractable r"
    using assms fallbackSplit_reextractable [of _ "sanitizeContent raw"] by auto
qed


text \<open>
  C7 (amended): running the extractor again on its replies joined by line feeds gives
  the same list whenever every reply of the first pass is a line that the heuristic
  gives back as it stands (\<open>reextractable\<close>); this holds in particular when the first
  pass took its result from the line split and no reply contains \<open>[\<close> or \<open><\<close>.
\<close>

theorem collectReplies_rerun_same:
  "((\<forall>r\<in>set (collectReplies raw). reextractable r) \<longrightarrow>
      collectReplies (join [10] (collectReplies raw)) = collectReplies raw)
   \<and> (collectReplies raw = fallbackSplit (sanitizeContent raw) \<and>
        (\<forall>r\<in>set (collectReplies raw). 91 \<notin> set r \<and> 60 \<notin> set r) \<longrightarrow>
      collectReplies (join [10] (collectReplies raw)) = collectReplies raw)"
  using collectReplies_rerun [of raw] collectReplies_rerun_lines [of raw] by blast

lemma example_lines_fallback:
  "fallbackSplit (sanitizeContent
     [49, 46, 32, 20320, 34892, 20320, 19978, 21834, 65281, 10,
      50, 46, 32, 21035, 20809, 35828, 19981, 32451, 12290, 10,
      22330, 26223, 65306, 25105, 38656, 35201, 19977, 26465, 22238, 22797]) =
   [[20320, 34892, 20320, 19978, 21834, 65281], [21035, 20809, 35828, 19981, 32451, 12290]]"
  by (simp add: json_eval extractor_eval)

theorem collectReplies_rerun_same_witness:
  "collectReplies
     [49, 46, 32, 20320, 34892, 20320, 19978, 21834, 65281, 10,
      50, 46, 32, 21035, 20809, 35828, 19981, 32451, 12290, 10,
      22330, 26223, 65306, 25105, 38656, 35201, 19977, 26465, 22238, 22797] =
   fallbackSplit (sanitizeContent
     [49, 46, 32, 20320, 34892, 20320, 19978, 21834, 65281, 10,
      50, 46, 32, 21035, 20809, 35828, 19981, 32451, 12290, 10,
      22330, 26223, 65306, 25105, 38656, 35201, 19977, 26465, 22238, 22797])
   \<and> 91 \<notin> set [20320, 34892, 20320, 19978, 21834, 65281 :: nat]
   \<and> 60 \<notin> set [20320, 34892, 20320, 19978, 21834, 65281 :: nat]
   \<and> 91 \<notin> set [21035, 20809, 35828, 19981, 32451, 12290 :: nat]
   \<and> 60 \<notin> set [21035, 20809, 35828, 19981, 32451, 12290 :: nat]
   \<and> collectReplies (join [10] [[20320, 34892, 20320, 19978, 21834, 65281], [21035, 20809, 35828, 19981, 32451, 12290]]) =
       [[20320, 34892, 20320, 19978, 21834, 65281], [21035, 20809, 35828, 19981, 32451, 12290]]"
proof -
  have a: "collectReplies
     [49, 46, 32, 20320, 34892, 20320, 19978, 21834, 65281, 10,
      50, 46, 32, 21035, 20809, 35828, 19981, 32451, 12290, 10,
      22330, 26223, 65306, 25105, 38656, 35201, 19977, 26465, 22238, 22797] =
     [[20320, 34892, 20320, 19978, 21834, 65281], [21035, 20809, 35828, 19981, 32451, 12290]]"
    by (rule collectReplies_lines_example)
  have b: "\<forall>r\<in>set ([[20320, 34892, 20320, 19978, 21834, 65281], [21035, 20809, 35828, 19981, 32451, 12290]] :: jsstring list). 91 \<notin> set r \<and> 60 \<notin> set r"
    by simp
  have c: "collectReplies (join [10] [[20320, 34892, 20320, 19978, 21834, 65281], [21035, 20809, 35828, 19981, 32451, 12290]]) =
       [[20320, 34892, 20320, 19978, 21834, 65281], [21035, 20809, 35828, 19981, 32451, 12290]]"
    using b collectReplies_rerun_same [of "[49, 46, 32, 20320, 34892, 20320, 19978, 21834, 65281, 10,
      50, 46, 32, 21035, 20809, 35828, 19981, 32451, 12290, 10,
      22330, 26223, 65306, 25105, 38656, 35201, 19977, 26465, 22238, 22797]"]
    unfolding a example_lines_fallback by blast
  show ?thesis unfolding a example_lines_fallback using c by simp
qed

text \<open>
  C7, as stated, fails: the first pass on \<open>["A","B","C"]\<close> returns the three strings, and
  the second pass on their concatenation, joined by line feeds or by nothing, returns
  no reply, since each line is shorter than 6 code units.
\<close>

lemma example_short_lines:
  "collectReplies [65, 10, 66, 10, 67] = []" "collectReplies [65, 66, 67] = []"
  by (simp_all add: json_eval extractor_eval)

theorem collectReplies_idempotent_counterexample:
  "collectReplies (ascii ''[\"A\",\"B\",\"C\"]'') = [ascii ''A'', ascii ''B'', ascii ''C'']
   \<and> collectReplies (join [10] (collectReplies (ascii ''[\"A\",\"B\",\"C\"]''))) = []
   \<and> collectReplies (concat (collectReplies (ascii ''[\"A\",\"B\",\"C\"]''))) = []"
  unfolding collectReplies_strict_example by (simp add: ascii_def example_short_lines)


end
